theory Spec2Isabelle
  imports Main "HOL-Library.AList" "HOL-Library.Multiset" "HOL-Library.Sublist" "HOL-Library.Word"
begin

section \<open>The test-vector generator (package builders)\<close>

text \<open>
  A shallow embedding of the batch generator: \<open>Generator.Group\<close>, \<open>generateVariants\<close>,
  \<open>vectorFilename\<close>, \<open>vectorPath\<close>, \<open>vectorsEqual\<close>, \<open>vectorBytesNoMeta\<close>,
  \<open>parseVectorFile\<close> and \<open>removePrevious\<close>. Line numbers are those of
  src/gen/suites/transfer/self_transfer.go, which holds the generator from line 32 on.

  Go strings and byte slices are \<open>string\<close> (lists of bytes). A panic or \<open>os.Exit\<close>
  is a value of type \<open>failure\<close>; an \<open>error\<close> return value is a value of type
  \<open>io_error\<close>. The file system, the process log, standard output and the heap cells of
  the \<open>*schema.Metadata\<close> pointers are fields of the record \<open>world\<close>, passed in
  and returned.
\<close>

subsection \<open>Data\<close>

type_synonym bytes = string

text \<open>\<open>[32]byte\<close>, the result of \<open>blake2b.Sum256\<close>.\<close>
type_synonym digest = "256 word"

text \<open>A path is \<open>filepath.Join(dir, name)\<close>, kept as the pair of its two arguments.\<close>
type_synonym path = "string \<times> string"

text \<open>Opaque content of a vector (state roots, messages, receipts), never inspected here.\<close>
type_synonym payload = string

datatype failure =
    Panic string           \<comment> \<open>\<open>panic(...)\<close>, also the runtime's own panics\<close>
  | ProcessExit            \<comment> \<open>\<open>os.Exit(1)\<close> of a failed assertion in a generation function\<close>

datatype io_error = ReadError | UnmarshalError | MarshalError | WriteError | RemoveError

datatype OverwriteMode = OverwriteNone | OverwriteUpdate | OverwriteForce

record GenerationData =
  Source :: string
  Version :: string

text \<open>
  Modelled from the spec: the declarations of package \<open>schema\<close> (\<open>Metadata\<close>, \<open>Variant\<close>,
  \<open>Preconditions\<close>, \<open>TestVector\<close>) are not among the sources. The fields the generator reads
  or writes (\<open>Metadata.ID\<close>, \<open>Metadata.Gen\<close>, \<open>Variant.ID\<close>, \<open>Preconditions.Variants\<close>,
  \<open>TestVector.Meta\<close>, \<open>TestVector.Pre\<close>) keep their names, \<open>Variant.ID\<close> as
  \<open>VariantID\<close>; the spec's "preconditions, applied inputs, postconditions/results" are
  the opaque fields \<open>PreRest\<close>, \<open>Apply\<close> and \<open>Post\<close>. A nil slice is the empty list, a
  nil \<open>Meta\<close> is \<open>None\<close>.
\<close>

record Metadata =
  ID :: string
  Gen :: "GenerationData list"
  Desc :: string

text \<open>Modelled from the spec: \<open>schema.Variant\<close>, the tag of a protocol version.\<close>

record Variant =
  VariantID :: string

text \<open>Modelled from the spec: \<open>schema.Preconditions\<close>, the variant list and the rest.\<close>

record Preconditions =
  Variants :: "Variant list"
  PreRest :: payload

datatype Class = ClassMessage | ClassTipset

text \<open>Modelled from the spec: \<open>schema.TestVector\<close>, the artifact.\<close>

record TestVector =
  Class :: Class
  Meta :: "Metadata option"
  Pre :: Preconditions
  Apply :: payload
  Post :: payload

text \<open>
  Modelled from the spec: \<open>ProtocolVersion\<close> and \<open>KnownProtocolVersions\<close> are declared
  in a file that is not among the sources. "An identifier plus whatever version-scoped configuration the generation
  function needs."
\<close>

record ProtocolVersion =
  PvID :: string
  PvConfig :: payload

text \<open>
  Modelled from the spec: the builders (\<open>MessageVector\<close>, \<open>TipsetVector\<close>, \<open>Finish\<close>) are
  not among the sources. A generation function is given "a fresh, isolated generation context
  scoped to that version", "populates the context with a result", and "the Executor
  finalizes it into an immutable Artifact" that carries the tag of the version that
  produced it. The function may fail (a failed assertion exits the process).
\<close>

record Builder =
  BClass :: Class
  BMetadata :: Metadata
  BSelector :: payload
  BMode :: nat
  BHints :: "string list"
  BVersion :: ProtocolVersion

record Content =
  CPre :: payload
  CApply :: payload
  CPost :: payload

type_synonym genfunc = "Builder \<Rightarrow> failure + Content"

text \<open>Modelled from the spec: \<open>MessageVector\<close>, the fresh context of a message-class vector.\<close>

definition MessageVector :: "Metadata \<Rightarrow> payload \<Rightarrow> nat \<Rightarrow> string list \<Rightarrow> ProtocolVersion \<Rightarrow> Builder" where
  "MessageVector metadata selector mode hints version =
     \<lparr>BClass = ClassMessage, BMetadata = metadata, BSelector = selector, BMode = mode,
      BHints = hints, BVersion = version\<rparr>"

text \<open>Modelled from the spec: \<open>TipsetVector\<close>, the fresh context of a tipset-class vector.\<close>

definition TipsetVector :: "Metadata \<Rightarrow> payload \<Rightarrow> nat \<Rightarrow> string list \<Rightarrow> ProtocolVersion \<Rightarrow> Builder" where
  "TipsetVector metadata selector mode hints version =
     \<lparr>BClass = ClassTipset, BMetadata = metadata, BSelector = selector, BMode = mode,
      BHints = hints, BVersion = version\<rparr>"

text \<open>
  Modelled from the spec: \<open>Finish\<close>, which finalizes the context into the artifact and
  attaches the tag of the version.
\<close>

definition Finish :: "Builder \<Rightarrow> Content \<Rightarrow> TestVector" where
  "Finish b c =
     \<lparr>Class = BClass b, Meta = Some (BMetadata b),
      Pre = \<lparr>Variants = [\<lparr>VariantID = PvID (BVersion b)\<rparr>], PreRest = CPre c\<rparr>,
      Apply = CApply c, Post = CPost c\<rparr>"

text \<open>
  \<open>VectorDef\<close>. \<open>Metadata\<close> is a pointer: an address into the heap of metadata objects
  (an address the heap does not hold is the nil pointer). A nil function is \<open>None\<close>.
\<close>

record VectorDef =
  Metadata :: nat
  Selector :: payload
  SupportedVersions :: "ProtocolVersion list"
  Hints :: "string list"
  VMode :: nat
  MessageFunc :: "genfunc option"
  TipsetFunc :: "genfunc option"

text \<open>\<open>Generator\<close>; a nil \<open>IncludeFilter\<close> is \<open>None\<close>, a compiled one its \<open>MatchString\<close>.\<close>

record Generator =
  OutputPath :: string
  Mode :: OverwriteMode
  IncludeFilter :: "(string \<Rightarrow> bool) option"

datatype io_op = OpOpen | OpStat | OpRead | OpRename | OpRemove | OpMkTemp | OpRemoveAll

text \<open>
  What the generator takes from outside its source file: package variables and constants of other
  packages, the JSON codec, the hash, the order in which Go ranges over a map, and which
  file operations the operating system refuses (on which path). \<open>Encode\<close> is
  the encoding into the open temporary file, so its error is also that of the write.
  \<open>MustMarshalJSON\<close> is taken to return (it panics where \<open>json.Marshal\<close> fails,
  which it does not on the vectors a builder finishes).
\<close>

record Extern =
  KnownProtocolVersions :: "ProtocolVersion list"
  HintIncorrect :: string                            \<comment> \<open>\<open>schema.HintIncorrect\<close>\<close>
  BuildDeps :: "(string \<times> string) list"              \<comment> \<open>\<open>debug.ReadBuildInfo().Deps\<close>: path, version\<close>
  MustMarshalJSON :: "TestVector \<Rightarrow> bytes"            \<comment> \<open>\<open>schema.TestVector.MustMarshalJSON\<close>\<close>
  Sum256 :: "bytes \<Rightarrow> digest"                        \<comment> \<open>\<open>blake2b.Sum256\<close>\<close>
  Encode :: "TestVector \<Rightarrow> io_error + bytes"         \<comment> \<open>\<open>json.Encoder.Encode\<close>, tab-indented\<close>
  Marshal :: "TestVector \<Rightarrow> io_error + bytes"        \<comment> \<open>\<open>json.Marshal\<close>\<close>
  Unmarshal :: "bytes \<Rightarrow> io_error + TestVector"      \<comment> \<open>\<open>json.Unmarshal\<close>\<close>
  mapOrder :: "(digest \<times> TestVector) list \<Rightarrow> (digest \<times> TestVector) list"
  Faults :: "io_op \<Rightarrow> path \<Rightarrow> bool"

datatype log_entry =
    LogSkipping string
  | LogNoVectors string
  | LogFailedTempDir
  | LogFailedRemoveTempDir
  | LogFailedOpen path
  | LogFailedWriteJson path
  | LogFailedEquality io_error
  | LogNoChanges path
  | LogWarningChanged path
  | LogOverwriting path
  | LogFailedStat path
  | LogFailedMove
  | LogFailedRemovePrevious io_error
  | LogWrote path

record world =
  files :: "path \<rightharpoonup> bytes"
  heap :: "nat \<rightharpoonup> Metadata"
  logs :: "log_entry list"
  stdout :: "bytes list"

subsection \<open>Generation data\<close>

definition brokenVectorPrefix :: string where
  "brokenVectorPrefix = ''x--''"

definition GenscriptCommit :: string where
  "GenscriptCommit = ''dirty''"

fun getBuildInfo_deps :: "string \<times> string \<Rightarrow> string list \<Rightarrow> GenerationData list" where
  "getBuildInfo_deps v [] = []"
| "getBuildInfo_deps v (dep # deps) =
     (if prefix dep (fst v) then [\<lparr>Source = fst v, Version = snd v\<rparr>] else [])
       @ getBuildInfo_deps v deps"

definition getBuildInfo :: "Extern \<Rightarrow> GenerationData list" where
  "getBuildInfo x =
     concat (map (\<lambda>v. getBuildInfo_deps v
        [''github.com/chenjianmei111/lotus'', ''github.com/chenjianmei111/specs-actors''])
        (BuildDeps x))"

definition genData :: "Extern \<Rightarrow> GenerationData list" where
  "genData x = \<lparr>Source = ''genscript'', Version = GenscriptCommit\<rparr> # getBuildInfo x"

subsection \<open>generateVariants\<close>

text \<open>One iteration of the loop over the supported versions (lines 446-470).\<close>

definition generateVariants_one :: "Metadata \<Rightarrow> VectorDef \<Rightarrow> ProtocolVersion \<Rightarrow> failure + TestVector" where
  "generateVariants_one md b version =
     (case MessageFunc b of
        Some f \<Rightarrow>
          (let v = MessageVector md (Selector b) (VMode b) (Hints b) version
           in case f v of Inl e \<Rightarrow> Inl e | Inr c \<Rightarrow> Inr (Finish v c))
      | None \<Rightarrow>
          (case TipsetFunc b of
             Some f \<Rightarrow>
               (let v = TipsetVector md (Selector b) (VMode b) (Hints b) version
                in case f v of Inl e \<Rightarrow> Inl e | Inr c \<Rightarrow> Inr (Finish v c))
           | None \<Rightarrow> Inl (Panic ''no generation function provided'')))"

fun generateVariants_run :: "Metadata \<Rightarrow> VectorDef \<Rightarrow> ProtocolVersion list \<Rightarrow> failure + TestVector list" where
  "generateVariants_run md b [] = Inr []"
| "generateVariants_run md b (version # versions) =
     (case generateVariants_one md b version of
        Inl e \<Rightarrow> Inl e
      | Inr v \<Rightarrow>
          (case generateVariants_run md b versions of
             Inl e \<Rightarrow> Inl e
           | Inr result \<Rightarrow> Inr (v # result)))"

text \<open>
  The deduplication loop (lines 472-484). The Go map \<open>uniq\<close> is an association list
  with one entry per key, a new key added at the end; each vector of \<open>result\<close> is an
  object of its own (the builders allocate one per version), so the append to
  \<open>merged.Pre.Variants\<close> changes the entry of the map and nothing else.
\<close>

definition clearVariants :: "TestVector \<Rightarrow> TestVector" where
  "clearVariants v = v\<lparr>Pre := (Pre v)\<lparr>Variants := []\<rparr>\<rparr>"

definition setVariants :: "TestVector \<Rightarrow> Variant list \<Rightarrow> TestVector" where
  "setVariants v variants = v\<lparr>Pre := (Pre v)\<lparr>Variants := variants\<rparr>\<rparr>"

fun generateVariants_dedup ::
  "Extern \<Rightarrow> (digest \<times> TestVector) list \<Rightarrow> TestVector list \<Rightarrow> (digest \<times> TestVector) list" where
  "generateVariants_dedup x uniq [] = uniq"
| "generateVariants_dedup x uniq (v # result) =
     (let variants = Variants (Pre v);
          v0 = clearVariants v;
          hash = Sum256 x (MustMarshalJSON x v0)
      in case map_of uniq hash of
           Some merged \<Rightarrow>
             generateVariants_dedup x
               (AList.update hash (setVariants merged (Variants (Pre merged) @ variants)) uniq) result
         | None \<Rightarrow>
             generateVariants_dedup x (AList.update hash (setVariants v0 variants) uniq) result)"

text \<open>Lines 472-503: deduplicate, then collect the values of the map in range order.\<close>

definition generateVariants_merge :: "Extern \<Rightarrow> TestVector list \<Rightarrow> TestVector list" where
  "generateVariants_merge x result = map snd (mapOrder x (generateVariants_dedup x [] result))"

text \<open>
  \<open>generateVariants\<close> receives the \<open>VectorDef\<close> by value, so the default for
  \<open>SupportedVersions\<close> stays in the copy; \<open>b.Metadata.Gen = genData\<close> writes through the
  pointer, into the heap. The two \<open>log.Printf\<close> lines of this function are left out.
\<close>

definition generateVariants ::
  "Extern \<Rightarrow> VectorDef \<Rightarrow> (nat \<rightharpoonup> Metadata) \<Rightarrow> (failure + TestVector list) \<times> (nat \<rightharpoonup> Metadata)" where
  "generateVariants x b h =
     (let versions = (if length (SupportedVersions b) = 0 then KnownProtocolVersions x
                      else SupportedVersions b)
      in case h (Metadata b) of
           None \<Rightarrow> (Inl (Panic ''nil pointer dereference''), h)
         | Some md \<Rightarrow>
             (let md' = md\<lparr>Gen := genData x\<rparr>;
                  h' = h(Metadata b \<mapsto> md')
              in case generateVariants_run md' b versions of
                   Inl e \<Rightarrow> (Inl e, h')
                 | Inr result \<Rightarrow> (Inr (generateVariants_merge x result), h')))"

subsection \<open>File names\<close>

text \<open>The loop over \<open>item.Hints\<close> of \<open>vectorFilename\<close>, with its \<open>break\<close>.\<close>

fun vectorFilename_hints :: "Extern \<Rightarrow> string list \<Rightarrow> string \<Rightarrow> string" where
  "vectorFilename_hints x [] filename = filename"
| "vectorFilename_hints x (hint # hints) filename =
     (if hint = HintIncorrect x then brokenVectorPrefix @ filename
      else vectorFilename_hints x hints filename)"

text \<open>
  \<open>item.Metadata.ID\<close> panics on a nil pointer and \<open>vector.Pre.Variants[0]\<close> on an empty
  list, the arguments of \<open>Sprintf\<close> being evaluated from left to right. (\<open>vector.Pre\<close>
  is never nil in a vector a builder finished.)
\<close>

definition vectorFilename ::
  "Extern \<Rightarrow> (nat \<rightharpoonup> Metadata) \<Rightarrow> string \<Rightarrow> VectorDef \<Rightarrow> TestVector \<Rightarrow> failure + string" where
  "vectorFilename x h groupName item vector =
     (case h (Metadata item) of
        None \<Rightarrow> Inl (Panic ''nil pointer dereference'')
      | Some md \<Rightarrow>
          (case Variants (Pre vector) of
             [] \<Rightarrow> Inl (Panic ''index out of range'')
           | first # _ \<Rightarrow>
               Inr (vectorFilename_hints x (Hints item)
                      (groupName @ ''--'' @ ID md @ ''--'' @ VariantID first @ ''.json''))))"

definition vectorPath ::
  "Extern \<Rightarrow> (nat \<rightharpoonup> Metadata) \<Rightarrow> string \<Rightarrow> string \<Rightarrow> VectorDef \<Rightarrow> TestVector \<Rightarrow> failure + path" where
  "vectorPath x h dir groupName item vector =
     (case vectorFilename x h groupName item vector of
        Inl e \<Rightarrow> Inl e
      | Inr filename \<Rightarrow> Inr (dir, filename))"

subsection \<open>The file system\<close>

datatype stat_result = StatOk | StatNotExist | StatError

definition os_Stat :: "Extern \<Rightarrow> world \<Rightarrow> path \<Rightarrow> stat_result" where
  "os_Stat x w p =
     (if Faults x OpStat p then StatError
      else if files w p = None then StatNotExist else StatOk)"

definition ioutil_ReadFile :: "Extern \<Rightarrow> world \<Rightarrow> path \<Rightarrow> io_error + bytes" where
  "ioutil_ReadFile x w p =
     (if Faults x OpRead p then Inl ReadError
      else case files w p of None \<Rightarrow> Inl ReadError | Some raw \<Rightarrow> Inr raw)"

definition os_Rename :: "Extern \<Rightarrow> world \<Rightarrow> path \<Rightarrow> path \<Rightarrow> io_error option \<times> world" where
  "os_Rename x w old new =
     (if Faults x OpRename new then (Some WriteError, w)
      else case files w old of
             None \<Rightarrow> (Some WriteError, w)
           | Some raw \<Rightarrow> (None, w\<lparr>files := ((files w)(old := None))(new \<mapsto> raw)\<rparr>))"

text \<open>\<open>os.Remove\<close> followed by the test \<open>err != nil && !os.IsNotExist(err)\<close>.\<close>

definition os_Remove :: "Extern \<Rightarrow> world \<Rightarrow> path \<Rightarrow> io_error option \<times> world" where
  "os_Remove x w p =
     (if Faults x OpRemove p then (Some RemoveError, w)
      else (None, w\<lparr>files := (files w)(p := None)\<rparr>))"

text \<open>\<open>strings.Replace(s, old, new, 1)\<close>: the first occurrence of \<open>old\<close> is replaced.\<close>

fun strings_Replace1 :: "string \<Rightarrow> string \<Rightarrow> string \<Rightarrow> string" where
  "strings_Replace1 [] old new = (if old = [] then new else [])"
| "strings_Replace1 (c # s) old new =
     (if prefix old (c # s) then new @ drop (length old) (c # s)
      else c # strings_Replace1 s old new)"

subsection \<open>Equality of vector files\<close>

definition parseVectorFile :: "Extern \<Rightarrow> world \<Rightarrow> path \<Rightarrow> io_error + TestVector" where
  "parseVectorFile x w p =
     (case ioutil_ReadFile x w p of
        Inl e \<Rightarrow> Inl ReadError
      | Inr raw \<Rightarrow>
          (case Unmarshal x raw of
             Inl e \<Rightarrow> Inl UnmarshalError
           | Inr vector \<Rightarrow> Inr vector))"

definition vectorBytesNoMeta :: "Extern \<Rightarrow> world \<Rightarrow> path \<Rightarrow> io_error + bytes" where
  "vectorBytesNoMeta x w p =
     (case parseVectorFile x w p of
        Inl e \<Rightarrow> Inl e
      | Inr v \<Rightarrow> Marshal x (v\<lparr>Meta := None\<rparr>))"

definition vectorsEqual :: "Extern \<Rightarrow> world \<Rightarrow> path \<Rightarrow> path \<Rightarrow> io_error + bool" where
  "vectorsEqual x w apath bpath =
     (case vectorBytesNoMeta x w apath of
        Inl e \<Rightarrow> Inl e
      | Inr abytes \<Rightarrow>
          (case vectorBytesNoMeta x w bpath of
             Inl e \<Rightarrow> Inl e
           | Inr bbytes \<Rightarrow> Inr (abytes = bbytes)))"

subsection \<open>removePrevious\<close>

definition removePrevious ::
  "Extern \<Rightarrow> world \<Rightarrow> string \<Rightarrow> string \<Rightarrow> VectorDef \<Rightarrow> TestVector \<Rightarrow> failure + io_error option \<times> world" where
  "removePrevious x w dir groupName item vector =
     (case vectorFilename x (heap w) groupName item vector of
        Inl e \<Rightarrow> Inl e
      | Inr filename \<Rightarrow>
          (let filepath =
                 (if prefix brokenVectorPrefix filename
                  then (dir, strings_Replace1 filename brokenVectorPrefix [])
                  else (dir, brokenVectorPrefix @ filename))
           in Inr (os_Remove x w filepath)))"

subsection \<open>Generator.Group\<close>

definition addLog :: "log_entry \<Rightarrow> world \<Rightarrow> world" where
  "addLog e w = w\<lparr>logs := logs w @ [e]\<rparr>"

text \<open>Lines 351-361: the move into place, the removal of the twin, the last log line.\<close>

definition Group_write ::
  "Extern \<Rightarrow> Generator \<Rightarrow> string \<Rightarrow> VectorDef \<Rightarrow> TestVector \<Rightarrow> path \<Rightarrow> path \<Rightarrow> world
     \<Rightarrow> failure option \<times> world" where
  "Group_write x g groupName item v tmp existing w =
     (let w1 = (case os_Rename x w tmp existing of
                  (Some err, w') \<Rightarrow> addLog LogFailedMove w'
                | (None, w') \<Rightarrow> w')
      in case removePrevious x w1 (OutputPath g) groupName item v of
           Inl e \<Rightarrow> (Some e, w1)
         | Inr (Some err, w2) \<Rightarrow> (None, addLog (LogWrote existing) (addLog (LogFailedRemovePrevious err) w2))
         | Inr (None, w2) \<Rightarrow> (None, addLog (LogWrote existing) w2))"

text \<open>
  Lines 298-362, the body of the loop over the variants of one item. \<open>continue\<close> is
  the return of the world as it is, with no failure.
\<close>

definition Group_persist ::
  "Extern \<Rightarrow> Generator \<Rightarrow> string \<Rightarrow> string \<Rightarrow> VectorDef \<Rightarrow> TestVector \<Rightarrow> world
     \<Rightarrow> failure option \<times> world" where
  "Group_persist x g tmpDir groupName item v w =
     (case vectorPath x (heap w) tmpDir groupName item v of
        Inl e \<Rightarrow> (Some e, w)
      | Inr tmp \<Rightarrow>
     (case vectorPath x (heap w) (OutputPath g) groupName item v of
        Inl e \<Rightarrow> (Some e, w)
      | Inr existing \<Rightarrow>
     (if Faults x OpOpen tmp then (None, addLog (LogFailedOpen tmp) w)
      else
     (case Encode x v of
        Inl err \<Rightarrow> (None, addLog (LogFailedWriteJson tmp) (w\<lparr>files := (files w)(tmp \<mapsto> [])\<rparr>))
      | Inr raw \<Rightarrow>
     (let w1 = w\<lparr>files := (files w)(tmp \<mapsto> raw)\<rparr>
      in case os_Stat x w1 existing of
           StatOk \<Rightarrow>
             (if Mode g = OverwriteForce then Group_write x g groupName item v tmp existing w1
              else
                (case vectorsEqual x w1 tmp existing of
                   Inl err \<Rightarrow> (None, addLog (LogFailedEquality err) w1)
                 | Inr eql \<Rightarrow>
                     (if eql then (None, addLog (LogNoChanges existing) w1)
                      else if Mode g = OverwriteNone then (None, addLog (LogWarningChanged existing) w1)
                      else Group_write x g groupName item v tmp existing
                             (if Mode g = OverwriteUpdate then addLog (LogOverwriting existing) w1
                              else w1))))
         | StatNotExist \<Rightarrow> Group_write x g groupName item v tmp existing w1
         | StatError \<Rightarrow> (None, addLog (LogFailedStat existing) w1))))))"

fun Group_persistAll ::
  "Extern \<Rightarrow> Generator \<Rightarrow> string \<Rightarrow> string \<Rightarrow> VectorDef \<Rightarrow> TestVector list \<Rightarrow> world
     \<Rightarrow> failure option \<times> world" where
  "Group_persistAll x g tmpDir groupName item [] w = (None, w)"
| "Group_persistAll x g tmpDir groupName item (v # variants) w =
     (case Group_persist x g tmpDir groupName item v w of
        (Some e, w') \<Rightarrow> (Some e, w')
      | (None, w') \<Rightarrow> Group_persistAll x g tmpDir groupName item variants w')"

text \<open>Lines 284-363, the task of one item, which works on a copy of the \<open>VectorDef\<close>.\<close>

definition Group_item ::
  "Extern \<Rightarrow> Generator \<Rightarrow> string \<Rightarrow> string \<Rightarrow> VectorDef \<Rightarrow> world \<Rightarrow> failure option \<times> world" where
  "Group_item x g tmpDir groupName item w =
     (case generateVariants x item (heap w) of
        (Inl e, h) \<Rightarrow> (Some e, w\<lparr>heap := h\<rparr>)
      | (Inr variants, h) \<Rightarrow>
          (let w1 = w\<lparr>heap := h\<rparr>
           in if OutputPath g = []
              then (None, w1\<lparr>stdout := stdout w1 @ map (MustMarshalJSON x) variants\<rparr>)
              else Group_persistAll x g tmpDir groupName item variants w1))"

text \<open>
  The tasks of the items of a group run concurrently in Go; here they run one after the
  other, in the order of the list. A panic or an exit in one of them ends the process.
\<close>

fun Group_items ::
  "Extern \<Rightarrow> Generator \<Rightarrow> string \<Rightarrow> string \<Rightarrow> VectorDef list \<Rightarrow> world \<Rightarrow> failure option \<times> world" where
  "Group_items x g tmpDir groupName [] w = (None, w)"
| "Group_items x g tmpDir groupName (item # generate) w =
     (case Group_item x g tmpDir groupName item w of
        (Some e, w') \<Rightarrow> (Some e, w')
      | (None, w') \<Rightarrow> Group_items x g tmpDir groupName generate w')"

text \<open>
  Lines 243-255, validation and filtering. The result is the list \<open>generate\<close> or the
  panic, and the lines logged on the way.
\<close>

fun Group_validate ::
  "Generator \<Rightarrow> string \<Rightarrow> (nat \<rightharpoonup> Metadata) \<Rightarrow> VectorDef list
     \<Rightarrow> (failure + VectorDef list) \<times> log_entry list" where
  "Group_validate g groupName h [] = (Inr [], [])"
| "Group_validate g groupName h (v # vectors) =
     (case h (Metadata v) of
        None \<Rightarrow> (Inl (Panic ''nil pointer dereference''), [])
      | Some md \<Rightarrow>
          (if MessageFunc v \<noteq> None \<and> TipsetFunc v \<noteq> None
           then (Inl (Panic (''vector with id '' @ ID md @ '' had more than one function'')), [])
           else if MessageFunc v = None \<and> TipsetFunc v = None
           then (Inl (Panic (''vector with id '' @ ID md @ '' had no functions'')), [])
           else
             (let skip = (case IncludeFilter g of
                            None \<Rightarrow> False
                          | Some matchString \<Rightarrow> \<not> matchString (ID md) \<and> \<not> matchString groupName);
                  (r, ls) = Group_validate g groupName h vectors
              in if skip then (r, LogSkipping (ID md) # ls)
                 else (case r of Inl e \<Rightarrow> Inl e | Inr generate \<Rightarrow> Inr (v # generate), ls))))"

text \<open>
  \<open>Group\<close>. \<open>tmpDir\<close> is the directory \<open>ioutil.TempDir\<close> creates. The task of the
  group, started with \<open>go\<close> and awaited by \<open>Close\<close>, runs here to its end before
  \<open>Group\<close> returns. The deferred \<open>os.RemoveAll\<close> runs when the task returns, not when
  the process ends in a panic or an exit.
\<close>

definition os_RemoveAll :: "Extern \<Rightarrow> world \<Rightarrow> string \<Rightarrow> world" where
  "os_RemoveAll x w dir =
     (if Faults x OpRemoveAll (dir, []) then addLog LogFailedRemoveTempDir w
      else w\<lparr>files := (\<lambda>p. if fst p = dir then None else files w p)\<rparr>)"

definition Group ::
  "Extern \<Rightarrow> Generator \<Rightarrow> string \<Rightarrow> string \<Rightarrow> VectorDef list \<Rightarrow> world \<Rightarrow> failure option \<times> world" where
  "Group x g tmpDir groupName vectors w =
     (case Group_validate g groupName (heap w) vectors of
        (Inl e, ls) \<Rightarrow> (Some e, w\<lparr>logs := logs w @ ls\<rparr>)
      | (Inr generate, ls) \<Rightarrow>
          (let w0 = w\<lparr>logs := logs w @ ls\<rparr>
           in if length generate = 0 then (None, addLog (LogNoVectors groupName) w0)
              else if OutputPath g \<noteq> [] then
                (if Faults x OpMkTemp (tmpDir, []) then (None, addLog LogFailedTempDir w0)
                 else (case Group_items x g tmpDir groupName generate w0 of
                         (Some e, w') \<Rightarrow> (Some e, w')
                       | (None, w') \<Rightarrow> (None, os_RemoveAll x w' tmpDir)))
              else Group_items x g [] groupName generate w0))"

subsection \<open>Notions used in the statements\<close>

text \<open>The serialization of a vector with its variant list cleared, and its hash.\<close>

definition bodyBytes :: "Extern \<Rightarrow> TestVector \<Rightarrow> bytes" where
  "bodyBytes x v = MustMarshalJSON x (clearVariants v)"

definition contentKey :: "Extern \<Rightarrow> TestVector \<Rightarrow> digest" where
  "contentKey x v = Sum256 x (bodyBytes x v)"

text \<open>The metadata-stripped serialization of the content of a file.\<close>

definition bytesNoMeta :: "Extern \<Rightarrow> bytes \<Rightarrow> io_error + bytes" where
  "bytesNoMeta x raw =
     (case Unmarshal x raw of
        Inl e \<Rightarrow> Inl UnmarshalError
      | Inr v \<Rightarrow> Marshal x (v\<lparr>Meta := None\<rparr>))"

text \<open>
  The file committed at the final path of \<open>v\<close> and the encoding of \<open>v\<close> have the same
  metadata-stripped serialization.
\<close>

definition committedEqual ::
  "Extern \<Rightarrow> Generator \<Rightarrow> string \<Rightarrow> VectorDef \<Rightarrow> (nat \<rightharpoonup> Metadata) \<Rightarrow> (path \<rightharpoonup> bytes) \<Rightarrow> TestVector \<Rightarrow> bool" where
  "committedEqual x g groupName item h fs v =
     (case vectorFilename x h groupName item v of
        Inl e \<Rightarrow> False
      | Inr name \<Rightarrow>
          (case fs (OutputPath g, name) of
             None \<Rightarrow> False
           | Some old \<Rightarrow>
               (case Encode x v of
                  Inl e \<Rightarrow> False
                | Inr raw \<Rightarrow>
                    (case bytesNoMeta x raw of
                       Inl e \<Rightarrow> False
                     | Inr abytes \<Rightarrow> bytesNoMeta x old = Inr abytes))))"

text \<open>
  The twin of a file name: the name of the same group, case and variant in the other
  broken state, the marker removed when the definition carries the hint and added when
  it does not.
\<close>

definition twinFilename :: "Extern \<Rightarrow> VectorDef \<Rightarrow> string \<Rightarrow> string" where
  "twinFilename x item name =
     (if HintIncorrect x \<in> set (Hints item) then drop (length brokenVectorPrefix) name
      else brokenVectorPrefix @ name)"

text \<open>The heap after \<open>b.Metadata.Gen = genData\<close>.\<close>

definition stampGen :: "Extern \<Rightarrow> VectorDef \<Rightarrow> (nat \<rightharpoonup> Metadata) \<Rightarrow> (nat \<rightharpoonup> Metadata)" where
  "stampGen x b h =
     (case h (Metadata b) of
        None \<Rightarrow> h
      | Some md \<Rightarrow> h(Metadata b \<mapsto> md\<lparr>Gen := genData x\<rparr>))"

subsection \<open>A small instance\<close>

text \<open>
  Three protocol versions, a toy codec (class, a flag for the metadata, the variant tags
  and the applied inputs), a toy hash, and a generation function that ignores the
  version.
\<close>

definition ex_versions :: "ProtocolVersion list" where
  "ex_versions = [\<lparr>PvID = ''v0'', PvConfig = ''a''\<rparr>, \<lparr>PvID = ''v1'', PvConfig = ''b''\<rparr>,
                  \<lparr>PvID = ''v2'', PvConfig = ''c''\<rparr>]"

definition ex_marshal :: "TestVector \<Rightarrow> bytes" where
  "ex_marshal v =
     (if Class v = ClassMessage then ''M'' else ''T'') @
     (case Meta v of None \<Rightarrow> ''-'' | Some md \<Rightarrow> ''+'') @
     concat (map VariantID (Variants (Pre v))) @ '':'' @ Apply v"

definition ex_unmarshal :: "bytes \<Rightarrow> io_error + TestVector" where
  "ex_unmarshal raw =
     (case raw of
        c # m # rest \<Rightarrow>
          Inr \<lparr>Class = (if c = CHR ''M'' then ClassMessage else ClassTipset),
               Meta = (if m = CHR ''+'' then Some \<lparr>ID = [], Gen = [], Desc = []\<rparr> else None),
               Pre = \<lparr>Variants = [], PreRest = []\<rparr>, Apply = rest, Post = []\<rparr>
      | _ \<Rightarrow> Inl UnmarshalError)"

definition ex_extern :: Extern where
  "ex_extern =
     \<lparr>KnownProtocolVersions = ex_versions, HintIncorrect = ''incorrect'', BuildDeps = [],
      MustMarshalJSON = ex_marshal, Sum256 = (\<lambda>raw. of_nat (length raw)),
      Encode = (\<lambda>v. Inr (ex_marshal v)), Marshal = (\<lambda>v. Inr (ex_marshal v)),
      Unmarshal = ex_unmarshal, mapOrder = rev, Faults = (\<lambda>op p. False)\<rparr>"

text \<open>The same, with the removal of files in the output directory refused.\<close>

definition ex_extern_ro :: Extern where
  "ex_extern_ro = ex_extern\<lparr>Faults := (\<lambda>op p. op = OpRemove)\<rparr>"

definition ex_vector :: "string \<Rightarrow> string \<Rightarrow> TestVector" where
  "ex_vector tag body =
     \<lparr>Class = ClassMessage, Meta = Some \<lparr>ID = ''case'', Gen = [], Desc = []\<rparr>,
      Pre = \<lparr>Variants = [\<lparr>VariantID = tag\<rparr>], PreRest = []\<rparr>, Apply = body, Post = []\<rparr>"

definition ex_genfunc :: genfunc where
  "ex_genfunc b = Inr \<lparr>CPre = [], CApply = ''transfer'', CPost = ''ok''\<rparr>"

definition ex_def :: VectorDef where
  "ex_def =
     \<lparr>Metadata = 7, Selector = [], SupportedVersions = [], Hints = [], VMode = 0,
      MessageFunc = Some ex_genfunc, TipsetFunc = None\<rparr>"

definition ex_heap :: "nat \<rightharpoonup> Metadata" where
  "ex_heap = [7 \<mapsto> \<lparr>ID = ''case'', Gen = [], Desc = []\<rparr>]"

definition ex_generator :: "OverwriteMode \<Rightarrow> Generator" where
  "ex_generator m = \<lparr>OutputPath = ''out'', Mode = m, IncludeFilter = None\<rparr>"

definition ex_world :: "(path \<rightharpoonup> bytes) \<Rightarrow> world" where
  "ex_world fs = \<lparr>files = fs, heap = ex_heap, logs = [], stdout = []\<rparr>"

definition ex_result :: "TestVector list" where
  "ex_result = [ex_vector ''v0'' ''abc'', ex_vector ''v1'' ''hello'', ex_vector ''v2'' ''abc'']"

definition ex_files :: "path \<rightharpoonup> bytes" where
  "ex_files = [(''out'', ''a'') \<mapsto> ''M+abc'', (''out'', ''b'') \<mapsto> ''M-abc'', (''out'', ''c'') \<mapsto> ''M+xyz'']"


definition ex_name :: string where
  "ex_name = ''grp--case--v0.json''"


text \<open>The file name \<open>removePrevious\<close> removes, for the file name of a vector.\<close>

definition removalTarget :: "string \<Rightarrow> string" where
  "removalTarget name =
     (if prefix brokenVectorPrefix name then strings_Replace1 name brokenVectorPrefix []
      else brokenVectorPrefix @ name)"

definition filenameOf ::
  "Extern \<Rightarrow> (nat \<rightharpoonup> Metadata) \<Rightarrow> string \<Rightarrow> VectorDef \<Rightarrow> TestVector \<Rightarrow> string" where
  "filenameOf x h groupName item v =
     (case vectorFilename x h groupName item v of Inl e \<Rightarrow> [] | Inr name \<Rightarrow> name)"

text \<open>
  An artifact a first run can settle: it has a file name, its encoding is a file that
  parses, and so does the file committed at its final path, if there is one.
\<close>

definition settleable ::
  "Extern \<Rightarrow> Generator \<Rightarrow> string \<Rightarrow> VectorDef \<Rightarrow> (nat \<rightharpoonup> Metadata) \<Rightarrow> (path \<rightharpoonup> bytes) \<Rightarrow> TestVector \<Rightarrow> bool" where
  "settleable x g groupName item h fs v =
     (case vectorFilename x h groupName item v of
        Inl e \<Rightarrow> False
      | Inr name \<Rightarrow>
          (case Encode x v of
             Inl e \<Rightarrow> False
           | Inr raw \<Rightarrow>
               (case bytesNoMeta x raw of
                  Inl e \<Rightarrow> False
                | Inr abytes \<Rightarrow>
                    (case fs (OutputPath g, name) of
                       None \<Rightarrow> True
                     | Some old \<Rightarrow> (case bytesNoMeta x old of Inl e \<Rightarrow> False | Inr bbytes \<Rightarrow> True)))))"

text \<open>
  File names that do not collide: no two artifacts share a name, and no name is the one
  \<open>removePrevious\<close> removes for another.
\<close>

definition separateNames :: "string list \<Rightarrow> bool" where
  "separateNames names =
     (distinct names \<and> list_all (\<lambda>a. list_all (\<lambda>b. a \<noteq> removalTarget b) names) names)"

section \<open>Deduplication\<close>

lemma clearVariants_setVariants [simp]: "clearVariants (setVariants v vs) = clearVariants v"
  by (simp add: clearVariants_def setVariants_def)

lemma setVariants_setVariants [simp]: "setVariants (setVariants v a) b = setVariants v b"
  by (simp add: setVariants_def)

lemma setVariants_clearVariants [simp]: "setVariants (clearVariants v) a = setVariants v a"
  by (simp add: clearVariants_def setVariants_def)

lemma setVariants_same [simp]: "setVariants v (Variants (Pre v)) = v"
  by (simp add: setVariants_def)

lemma Variants_setVariants [simp]: "Variants (Pre (setVariants v a)) = a"
  by (simp add: setVariants_def)

lemma bodyBytes_setVariants [simp]: "bodyBytes x (setVariants v a) = bodyBytes x v"
  by (simp add: bodyBytes_def)

lemma contentKey_setVariants [simp]: "contentKey x (setVariants v a) = contentKey x v"
  by (simp add: contentKey_def)

text \<open>
  What the map holds under a key after the loop: the entry it held before with the
  variants of the later vectors of that key appended, or else the first vector of that
  key with the variants of all of them.
\<close>

lemma dedup_lookup:
  "map_of (generateVariants_dedup x uniq result) h =
     (case map_of uniq h of
        Some m \<Rightarrow>
          Some (setVariants m (Variants (Pre m) @
                  concat (map (\<lambda>v. Variants (Pre v)) (filter (\<lambda>v. contentKey x v = h) result))))
      | None \<Rightarrow>
          (case filter (\<lambda>v. contentKey x v = h) result of
             [] \<Rightarrow> None
           | r # rs \<Rightarrow> Some (setVariants r (concat (map (\<lambda>v. Variants (Pre v)) (r # rs))))))"
proof (induction result arbitrary: uniq)
  case Nil
  show ?case by (simp split: option.split)
next
  case (Cons v result)
  show ?case
    by (simp add: Cons.IH Let_def update_conv' contentKey_def bodyBytes_def split: option.split)
qed

lemma dedup_distinct:
  "distinct (map fst uniq) \<Longrightarrow> distinct (map fst (generateVariants_dedup x uniq result))"
  by (induction result arbitrary: uniq) (simp_all add: Let_def distinct_update split: option.split)

lemma dedup_keys:
  "fst ` set (generateVariants_dedup x [] result) = contentKey x ` set result"
proof -
  have "fst ` set (generateVariants_dedup x [] result) =
          dom (map_of (generateVariants_dedup x [] result))"
    by (simp add: dom_map_of_conv_image_fst)
  also have "\<dots> = contentKey x ` set result"
    by (auto simp: dom_def dedup_lookup filter_empty_conv split: list.splits)
  finally show ?thesis .
qed

lemma dedup_entry:
  assumes "(h, m) \<in> set (generateVariants_dedup x [] result)"
  shows "\<exists>r rs. filter (\<lambda>v. contentKey x v = h) result = r # rs \<and>
           m = setVariants r (concat (map (\<lambda>v. Variants (Pre v)) (r # rs)))"
proof -
  have "distinct (map fst (generateVariants_dedup x [] result))"
    by (rule dedup_distinct) simp
  with assms have "map_of (generateVariants_dedup x [] result) h = Some m"
    by simp
  then show ?thesis
    by (simp add: dedup_lookup split: list.splits)
qed

lemma filter_head: "filter P xs = r # rs \<Longrightarrow> r \<in> set xs \<and> P r"
proof -
  assume "filter P xs = r # rs"
  then have "r \<in> set (filter P xs)" by simp
  then show ?thesis by simp
qed

lemma dedup_entry_key:
  assumes "(h, m) \<in> set (generateVariants_dedup x [] result)"
  shows "contentKey x m = h \<and> (\<exists>r\<in>set result. bodyBytes x m = bodyBytes x r)"
proof -
  from dedup_entry [OF assms] obtain r rs where
    r: "filter (\<lambda>v. contentKey x v = h) result = r # rs"
    and m: "m = setVariants r (concat (map (\<lambda>v. Variants (Pre v)) (r # rs)))"
    by blast
  from filter_head [OF r] m show ?thesis
    by auto
qed

lemma filter_key_single:
  "distinct (map fst l) \<Longrightarrow> (k, m) \<in> set l \<Longrightarrow> filter (\<lambda>p. fst p = k) l = [(k, m)]"
proof (induction l)
  case Nil
  then show ?case by simp
next
  case (Cons p l)
  show ?case
  proof (cases "fst p = k")
    case True
    with Cons.prems have "p = (k, m)"
      by (cases p) (auto simp: image_iff)
    moreover from Cons.prems True have "filter (\<lambda>p. fst p = k) l = []"
      by (auto simp: filter_empty_conv image_iff)
    ultimately show ?thesis by simp
  next
    case False
    with Cons show ?thesis by auto
  qed
qed

lemma mapOrder_set:
  "\<forall>uniq. mset (mapOrder x uniq) = mset uniq \<Longrightarrow> set (mapOrder x uniq) = set uniq"
  by (metis set_mset_mset)

lemma mapOrder_distinct:
  assumes "\<forall>uniq. mset (mapOrder x uniq) = mset uniq"
  shows "distinct (map fst (mapOrder x (generateVariants_dedup x [] result)))"
proof -
  let ?u = "generateVariants_dedup x [] result"
  have "mset (map fst (mapOrder x ?u)) = mset (map fst ?u)"
    using assms by simp
  moreover have "distinct (map fst ?u)"
    by (rule dedup_distinct) simp
  ultimately show ?thesis
    by (metis mset_eq_imp_distinct_iff)
qed

lemma merge_keys:
  assumes "\<forall>uniq. mset (mapOrder x uniq) = mset uniq"
  shows "map (contentKey x) (generateVariants_merge x result) =
           map fst (mapOrder x (generateVariants_dedup x [] result))"
  unfolding generateVariants_merge_def map_map
proof (rule map_cong [OF refl])
  fix p
  assume "p \<in> set (mapOrder x (generateVariants_dedup x [] result))"
  then have "(fst p, snd p) \<in> set (generateVariants_dedup x [] result)"
    using mapOrder_set [OF assms] by simp
  from dedup_entry_key [OF this] show "(contentKey x \<circ> snd) p = fst p"
    by simp
qed

lemma merge_distinct_bodies:
  assumes "\<forall>uniq. mset (mapOrder x uniq) = mset uniq"
  shows "distinct (map (bodyBytes x) (generateVariants_merge x result))"
proof -
  have "distinct (map (contentKey x) (generateVariants_merge x result))"
    by (simp add: merge_keys [OF assms] mapOrder_distinct [OF assms])
  moreover have "contentKey x = Sum256 x \<circ> bodyBytes x"
    by (simp add: fun_eq_iff contentKey_def)
  ultimately have "distinct (map (Sum256 x \<circ> bodyBytes x) (generateVariants_merge x result))"
    by simp
  then show ?thesis
    by (auto simp: distinct_map dest: inj_on_imageI2)
qed

lemma merge_length:
  assumes perm: "\<forall>uniq. mset (mapOrder x uniq) = mset uniq"
      and inj: "inj_on (Sum256 x) (bodyBytes x ` set result)"
  shows "length (generateVariants_merge x result) = card (bodyBytes x ` set result)"
proof -
  let ?u = "generateVariants_dedup x [] result"
  have "length (generateVariants_merge x result) = length (map fst (mapOrder x ?u))"
    by (simp add: generateVariants_merge_def)
  also have "\<dots> = card (set (map fst (mapOrder x ?u)))"
    using mapOrder_distinct [OF perm] by (simp only: distinct_card)
  also have "set (map fst (mapOrder x ?u)) = contentKey x ` set result"
    using mapOrder_set [OF perm] by (simp add: dedup_keys)
  also have "contentKey x ` set result = Sum256 x ` (bodyBytes x ` set result)"
    by (auto simp: contentKey_def)
  also have "card \<dots> = card (bodyBytes x ` set result)"
    using inj by (rule card_image)
  finally show ?thesis .
qed

lemma merge_group:
  assumes perm: "\<forall>uniq. mset (mapOrder x uniq) = mset uniq"
      and inj: "inj_on (Sum256 x) (bodyBytes x ` set result)"
      and a: "a \<in> set result"
  shows "filter (\<lambda>out. bodyBytes x out = bodyBytes x a) (generateVariants_merge x result) =
           [setVariants (hd (filter (\<lambda>v. bodyBytes x v = bodyBytes x a) result))
              (concat (map (\<lambda>v. Variants (Pre v))
                 (filter (\<lambda>v. bodyBytes x v = bodyBytes x a) result)))]"
proof -
  let ?u = "generateVariants_dedup x [] result"
  let ?l = "mapOrder x ?u"
  let ?k = "contentKey x a"
  let ?grp = "filter (\<lambda>v. bodyBytes x v = bodyBytes x a) result"
  let ?m = "setVariants (hd ?grp) (concat (map (\<lambda>v. Variants (Pre v)) ?grp))"
  have set_l: "set ?l = set ?u"
    by (rule mapOrder_set [OF perm])
  have key_iff: "contentKey x v = ?k \<longleftrightarrow> bodyBytes x v = bodyBytes x a" if "v \<in> set result" for v
    using that a inj by (auto simp: contentKey_def dest: inj_onD)
  then have grp: "filter (\<lambda>v. contentKey x v = ?k) result = ?grp"
    by (auto intro: filter_cong)
  have "?k \<in> fst ` set ?u"
    using a by (simp add: dedup_keys)
  then obtain m0 where m0: "(?k, m0) \<in> set ?u"
    by auto
  from dedup_entry [OF m0] have "m0 = ?m"
    by (auto simp: grp)
  with m0 set_l have "(?k, ?m) \<in> set ?l"
    by simp
  with mapOrder_distinct [OF perm] have single: "filter (\<lambda>p. fst p = ?k) ?l = [(?k, ?m)]"
    by (rule filter_key_single)
  have "bodyBytes x (snd p) = bodyBytes x a \<longleftrightarrow> fst p = ?k" if "p \<in> set ?l" for p
  proof -
    from that set_l have "(fst p, snd p) \<in> set ?u" by simp
    from dedup_entry [OF this] obtain r rs where
      r: "filter (\<lambda>v. contentKey x v = fst p) result = r # rs"
      and m: "snd p = setVariants r (concat (map (\<lambda>v. Variants (Pre v)) (r # rs)))"
      by blast
    from filter_head [OF r] have "r \<in> set result" "contentKey x r = fst p"
      by simp_all
    with key_iff [of r] m show ?thesis
      by simp
  qed
  then have "filter (\<lambda>p. bodyBytes x (snd p) = bodyBytes x a) ?l = filter (\<lambda>p. fst p = ?k) ?l"
    by (auto intro: filter_cong)
  with single show ?thesis
    by (simp add: generateVariants_merge_def filter_map comp_def)
qed

text \<open>
  C1. Range order being a permutation of the map and the hash having no collision on
  the cleared serializations of the artifacts of one definition: for every artifact \<open>a\<close>
  of the list, the output of the deduplication holds exactly one artifact with the
  cleared serialization of \<open>a\<close>, namely the first-seen artifact of that serialization
  carrying the variant tags of all artifacts of that serialization in first-seen order;
  the outputs have pairwise different cleared serializations, and there are as many of
  them as there are different cleared serializations in the list.
\<close>

theorem generateVariants_dedup_merges:
  assumes "\<forall>uniq. mset (mapOrder x uniq) = mset uniq"
      and "inj_on (Sum256 x) (bodyBytes x ` set result)"
      and "a \<in> set result"
  shows "filter (\<lambda>out. bodyBytes x out = bodyBytes x a) (generateVariants_merge x result) =
           [setVariants (hd (filter (\<lambda>v. bodyBytes x v = bodyBytes x a) result))
              (concat (map (\<lambda>v. Variants (Pre v))
                 (filter (\<lambda>v. bodyBytes x v = bodyBytes x a) result)))]
         \<and> distinct (map (bodyBytes x) (generateVariants_merge x result))
         \<and> length (generateVariants_merge x result) = card (bodyBytes x ` set result)"
  using assms by (simp only: merge_group merge_distinct_bodies merge_length simp_thms)


lemma ex_bodyBytes [simp]: "bodyBytes ex_extern (ex_vector tag body) = ''M+:'' @ body"
  by (simp add: bodyBytes_def ex_extern_def ex_marshal_def ex_vector_def clearVariants_def)

lemma ex_mapOrder: "\<forall>uniq. mset (mapOrder ex_extern uniq) = mset uniq"
  by (simp add: ex_extern_def)

theorem generateVariants_dedup_merges_witness:
  "(\<forall>uniq. mset (mapOrder ex_extern uniq) = mset uniq)
   \<and> inj_on (Sum256 ex_extern) (bodyBytes ex_extern ` set ex_result)
   \<and> ex_vector ''v0'' ''abc'' \<in> set ex_result
   \<and> filter (\<lambda>out. bodyBytes ex_extern out = bodyBytes ex_extern (ex_vector ''v0'' ''abc''))
        (generateVariants_merge ex_extern ex_result) =
        [setVariants (ex_vector ''v0'' ''abc'') [\<lparr>VariantID = ''v0''\<rparr>, \<lparr>VariantID = ''v2''\<rparr>]]
   \<and> length (generateVariants_merge ex_extern ex_result) = 2"
proof -
  have inj: "inj_on (Sum256 ex_extern) (bodyBytes ex_extern ` set ex_result)"
    by (simp add: ex_result_def) (simp add: ex_extern_def insert_Diff_if)
  have a: "ex_vector ''v0'' ''abc'' \<in> set ex_result"
    by (simp add: ex_result_def)
  have v: "Variants (Pre (ex_vector tag body)) = [\<lparr>VariantID = tag\<rparr>]" for tag body
    by (simp add: ex_vector_def)
  from generateVariants_dedup_merges [OF ex_mapOrder inj a]
  have concl:
    "filter (\<lambda>out. bodyBytes ex_extern out = bodyBytes ex_extern (ex_vector ''v0'' ''abc''))
        (generateVariants_merge ex_extern ex_result) =
        [setVariants (ex_vector ''v0'' ''abc'') [\<lparr>VariantID = ''v0''\<rparr>, \<lparr>VariantID = ''v2''\<rparr>]]
     \<and> length (generateVariants_merge ex_extern ex_result) = 2"
    by (simp add: ex_result_def v card_insert_if)
  show ?thesis
    by (rule conjI [OF ex_mapOrder conjI [OF inj conjI [OF a concl]]])
qed

text \<open>
  C10. Every artifact of the list carrying at least one variant tag, every artifact the
  deduplication emits carries at least one, so \<open>vectorFilename\<close> does not fail with
  an index out of range on it.
\<close>

theorem generateVariants_variants_nonempty:
  assumes "\<forall>uniq. mset (mapOrder x uniq) = mset uniq"
      and "\<forall>v\<in>set result. Variants (Pre v) \<noteq> []"
      and "out \<in> set (generateVariants_merge x result)"
  shows "Variants (Pre out) \<noteq> []
         \<and> vectorFilename x h groupName item out \<noteq> Inl (Panic ''index out of range'')"
proof -
  from assms(3) obtain k where "(k, out) \<in> set (mapOrder x (generateVariants_dedup x [] result))"
    by (auto simp: generateVariants_merge_def)
  then have "(k, out) \<in> set (generateVariants_dedup x [] result)"
    using mapOrder_set [OF assms(1)] by simp
  from dedup_entry [OF this] obtain r rs where
    r: "filter (\<lambda>v. contentKey x v = k) result = r # rs"
    and out: "out = setVariants r (concat (map (\<lambda>v. Variants (Pre v)) (r # rs)))"
    by blast
  from filter_head [OF r] assms(2) have "Variants (Pre r) \<noteq> []"
    by simp
  with out have nonempty: "Variants (Pre out) \<noteq> []"
    by simp
  then show ?thesis
    by (simp add: vectorFilename_def split: option.split list.split)
qed

theorem generateVariants_variants_nonempty_witness:
  "(\<forall>uniq. mset (mapOrder ex_extern uniq) = mset uniq)
   \<and> generateVariants_merge ex_extern ex_result =
       [ex_vector ''v1'' ''hello'',
        setVariants (ex_vector ''v0'' ''abc'') [\<lparr>VariantID = ''v0''\<rparr>, \<lparr>VariantID = ''v2''\<rparr>]]
   \<and> Variants (Pre (ex_vector ''v1'' ''hello'')) \<noteq> []
   \<and> vectorFilename ex_extern ex_heap ''grp'' ex_def (ex_vector ''v1'' ''hello'')
        \<noteq> Inl (Panic ''index out of range'')"
proof -
  have nonempty: "\<forall>v\<in>set ex_result. Variants (Pre v) \<noteq> []"
    by (simp add: ex_result_def ex_vector_def)
  have merged: "generateVariants_merge ex_extern ex_result =
       [ex_vector ''v1'' ''hello'',
        setVariants (ex_vector ''v0'' ''abc'') [\<lparr>VariantID = ''v0''\<rparr>, \<lparr>VariantID = ''v2''\<rparr>]]"
    by (simp add: generateVariants_merge_def ex_result_def Let_def contentKey_def [symmetric]
          bodyBytes_def [symmetric])
       (simp add: ex_extern_def contentKey_def ex_vector_def setVariants_def clearVariants_def)
  then have out: "ex_vector ''v1'' ''hello'' \<in> set (generateVariants_merge ex_extern ex_result)"
    by simp
  from generateVariants_variants_nonempty [OF ex_mapOrder nonempty out, of ex_heap "''grp''" ex_def]
       ex_mapOrder merged
  show ?thesis
    by blast
qed


section \<open>Generation\<close>

lemma generateVariants_one_variants:
  "generateVariants_one md b pv = Inr v \<Longrightarrow> Variants (Pre v) = [\<lparr>VariantID = PvID pv\<rparr>]"
  by (auto simp: generateVariants_one_def Finish_def MessageVector_def TipsetVector_def Let_def
           split: option.splits sum.splits)

lemma generateVariants_run_all:
  assumes "\<forall>pv\<in>set versions. \<exists>v. generateVariants_one md b pv = Inr v \<and> bodyBytes x v = raw"
  shows "\<exists>result. generateVariants_run md b versions = Inr result
           \<and> length result = length versions
           \<and> (\<forall>v\<in>set result. bodyBytes x v = raw)
           \<and> concat (map (\<lambda>v. Variants (Pre v)) result) = map (\<lambda>pv. \<lparr>VariantID = PvID pv\<rparr>) versions"
  using assms
proof (induction versions)
  case Nil
  show ?case by simp
next
  case (Cons pv versions)
  from Cons.prems obtain v where v: "generateVariants_one md b pv = Inr v" "bodyBytes x v = raw"
    by auto
  from Cons.IH Cons.prems obtain result where
    "generateVariants_run md b versions = Inr result" "length result = length versions"
    "\<forall>v\<in>set result. bodyBytes x v = raw"
    "concat (map (\<lambda>v. Variants (Pre v)) result) = map (\<lambda>pv. \<lparr>VariantID = PvID pv\<rparr>) versions"
    by auto
  with v generateVariants_one_variants [OF v(1)] show ?case
    by simp
qed

lemma merge_same_body:
  assumes perm: "\<forall>uniq. mset (mapOrder x uniq) = mset uniq"
      and same: "\<forall>v\<in>set result. bodyBytes x v = raw"
      and nonempty: "result \<noteq> []"
  shows "generateVariants_merge x result =
           [setVariants (hd result) (concat (map (\<lambda>v. Variants (Pre v)) result))]"
proof -
  from nonempty have a: "hd result \<in> set result"
    by simp
  from same nonempty have image: "bodyBytes x ` set result = {raw}"
    by (cases result) auto
  then have inj: "inj_on (Sum256 x) (bodyBytes x ` set result)"
    by simp
  from same a have all: "filter (\<lambda>v. bodyBytes x v = bodyBytes x (hd result)) result = result"
    by simp
  have "length (generateVariants_merge x result) = 1"
    by (simp add: merge_length [OF perm inj] image)
  then obtain out where out: "generateVariants_merge x result = [out]"
    by (cases "generateVariants_merge x result") auto
  from merge_group [OF perm inj a] show ?thesis
    unfolding all out by (simp split: if_splits)
qed

text \<open>
  C7. A definition with no supported versions is run against every known protocol
  version; when the artifacts of all versions have the same cleared serialization (and
  there is a known version at all), \<open>generateVariants\<close> returns exactly one artifact, of
  that serialization, tagged with every known version in order.
\<close>

theorem generateVariants_all_known_versions:
  assumes "\<forall>uniq. mset (mapOrder x uniq) = mset uniq"
      and "SupportedVersions b = []"
      and "KnownProtocolVersions x \<noteq> []"
      and "h (Metadata b) = Some md"
      and "\<forall>pv\<in>set (KnownProtocolVersions x).
             \<exists>v. generateVariants_one (md\<lparr>Gen := genData x\<rparr>) b pv = Inr v \<and> bodyBytes x v = raw"
  shows "(\<exists>result. generateVariants_run (md\<lparr>Gen := genData x\<rparr>) b (KnownProtocolVersions x) = Inr result
               \<and> length result = length (KnownProtocolVersions x))
         \<and> (\<exists>out. fst (generateVariants x b h) = Inr [out]
               \<and> bodyBytes x out = raw
               \<and> map VariantID (Variants (Pre out)) = map PvID (KnownProtocolVersions x))"
proof -
  let ?md = "md\<lparr>Gen := genData x\<rparr>"
  from generateVariants_run_all [OF assms(5)] obtain result where
    run: "generateVariants_run ?md b (KnownProtocolVersions x) = Inr result"
    and len: "length result = length (KnownProtocolVersions x)"
    and same: "\<forall>v\<in>set result. bodyBytes x v = raw"
    and tags: "concat (map (\<lambda>v. Variants (Pre v)) result) =
                 map (\<lambda>pv. \<lparr>VariantID = PvID pv\<rparr>) (KnownProtocolVersions x)"
    by blast
  from len assms(3) have nonempty: "result \<noteq> []"
    by auto
  let ?out = "setVariants (hd result) (concat (map (\<lambda>v. Variants (Pre v)) result))"
  have "fst (generateVariants x b h) = Inr [?out]"
    by (simp add: generateVariants_def assms(2,4) run merge_same_body [OF assms(1) same nonempty])
  moreover from same nonempty have "bodyBytes x ?out = raw"
    by simp
  moreover have "map VariantID (Variants (Pre ?out)) = map PvID (KnownProtocolVersions x)"
    by (simp add: tags comp_def)
  ultimately show ?thesis
    using run len by auto
qed

lemma ex_generateVariants_one:
  "generateVariants_one md ex_def pv =
     Inr (Finish (MessageVector md [] 0 [] pv) \<lparr>CPre = [], CApply = ''transfer'', CPost = ''ok''\<rparr>)"
  by (simp add: generateVariants_one_def ex_def_def ex_genfunc_def)

theorem generateVariants_all_known_versions_witness:
  "(\<forall>uniq. mset (mapOrder ex_extern uniq) = mset uniq)
   \<and> SupportedVersions ex_def = []
   \<and> KnownProtocolVersions ex_extern \<noteq> []
   \<and> ex_heap (Metadata ex_def) = Some \<lparr>ID = ''case'', Gen = [], Desc = []\<rparr>
   \<and> (\<exists>out. fst (generateVariants ex_extern ex_def ex_heap) = Inr [out]
         \<and> bodyBytes ex_extern out = ''M+:transfer''
         \<and> map VariantID (Variants (Pre out)) = [''v0'', ''v1'', ''v2''])"
proof -
  have sv: "SupportedVersions ex_def = []"
    by (simp add: ex_def_def)
  have known: "KnownProtocolVersions ex_extern \<noteq> []"
    by (simp add: ex_extern_def ex_versions_def)
  have md: "ex_heap (Metadata ex_def) = Some \<lparr>ID = ''case'', Gen = [], Desc = []\<rparr>"
    by (simp add: ex_heap_def ex_def_def)
  have same: "\<forall>pv\<in>set (KnownProtocolVersions ex_extern).
        \<exists>v. generateVariants_one (\<lparr>ID = ''case'', Gen = [], Desc = []\<rparr>\<lparr>Gen := genData ex_extern\<rparr>) ex_def pv = Inr v
            \<and> bodyBytes ex_extern v = ''M+:transfer''"
    by (simp add: ex_generateVariants_one)
       (simp add: bodyBytes_def ex_extern_def ex_marshal_def Finish_def MessageVector_def clearVariants_def)
  have "\<exists>out. fst (generateVariants ex_extern ex_def ex_heap) = Inr [out]
         \<and> bodyBytes ex_extern out = ''M+:transfer''
         \<and> map VariantID (Variants (Pre out)) = [''v0'', ''v1'', ''v2'']"
    using generateVariants_all_known_versions
            [of ex_extern ex_def ex_heap "\<lparr>ID = ''case'', Gen = [], Desc = []\<rparr>" "''M+:transfer''"]
          ex_mapOrder sv known md same
    by (simp add: ex_extern_def ex_versions_def)
  with ex_mapOrder sv known md show ?thesis
    by blast
qed


section \<open>The heap of metadata objects\<close>

lemma os_Rename_heap [simp]: "heap (snd (os_Rename x w old new)) = heap w"
  by (simp add: os_Rename_def split: option.split)

lemma os_Remove_heap [simp]: "heap (snd (os_Remove x w p)) = heap w"
  by (simp add: os_Remove_def)

lemma addLog_heap [simp]: "heap (addLog e w) = heap w"
  by (simp add: addLog_def)

lemma addLog_files [simp]: "files (addLog e w) = files w"
  by (simp add: addLog_def)

lemma removePrevious_heap:
  "removePrevious x w dir groupName item v = Inr (err, w') \<Longrightarrow> heap w' = heap w"
  by (auto simp: removePrevious_def Let_def os_Remove_def split: sum.splits if_splits)

lemma Group_write_heap [simp]:
  "heap (snd (Group_write x g groupName item v tmp existing w)) = heap w"
proof -
  obtain err w1 where r: "os_Rename x w tmp existing = (err, w1)"
    by (cases "os_Rename x w tmp existing")
  then have "heap w1 = heap w"
    by (metis os_Rename_heap snd_conv)
  with r show ?thesis
    by (auto simp: Group_write_def Let_def split: sum.split option.split prod.split
             dest!: removePrevious_heap)
qed

lemma Group_persist_heap [simp]:
  "heap (snd (Group_persist x g tmpDir groupName item v w)) = heap w"
  by (simp add: Group_persist_def Let_def split: sum.split stat_result.split)

lemma Group_persistAll_heap [simp]:
  "heap (snd (Group_persistAll x g tmpDir groupName item variants w)) = heap w"
proof (induction variants arbitrary: w)
  case Nil
  show ?case by simp
next
  case (Cons v variants)
  obtain r w' where p: "Group_persist x g tmpDir groupName item v w = (r, w')"
    by (cases "Group_persist x g tmpDir groupName item v w")
  then have "heap w' = heap w"
    by (metis Group_persist_heap snd_conv)
  with p Cons.IH [of w'] show ?case
    by (cases r) simp_all
qed

lemma generateVariants_heap: "snd (generateVariants x b h) = stampGen x b h"
  by (simp add: generateVariants_def stampGen_def Let_def split: option.split sum.split)

lemma Group_item_heap:
  "heap (snd (Group_item x g tmpDir groupName item w)) = stampGen x item (heap w)"
proof -
  obtain r h where gv: "generateVariants x item (heap w) = (r, h)"
    by (cases "generateVariants x item (heap w)")
  then have "h = stampGen x item (heap w)"
    by (metis generateVariants_heap snd_conv)
  with gv show ?thesis
    by (cases r) (simp_all add: Group_item_def Let_def)
qed

text \<open>
  C9, as amended. The task of a definition works on a copy of the \<open>VectorDef\<close>, so no
  field of the caller's struct changes (the default of \<open>SupportedVersions\<close> stays in the
  copy). The metadata object the definition points to changes in one way: generation
  overwrites its field \<open>Gen\<close> with the generation data, the other fields and the other
  metadata objects staying as they are; deduplication and persistence change no
  metadata object.
\<close>

theorem Group_item_stamps_metadata:
  "snd (generateVariants x item h) = stampGen x item h
   \<and> heap (snd (Group_item x g tmpDir groupName item w)) = stampGen x item (heap w)
   \<and> heap (snd (Group_persistAll x g tmpDir groupName item variants w)) = heap w
   \<and> (h (Metadata item) = Some md \<longrightarrow>
         stampGen x item h (Metadata item) = Some (md\<lparr>Gen := genData x\<rparr>))
   \<and> (\<forall>a. a \<noteq> Metadata item \<longrightarrow> stampGen x item h a = h a)"
proof (intro conjI)
  show "snd (generateVariants x item h) = stampGen x item h"
    by (rule generateVariants_heap)
  show "heap (snd (Group_item x g tmpDir groupName item w)) = stampGen x item (heap w)"
    by (rule Group_item_heap)
  show "heap (snd (Group_persistAll x g tmpDir groupName item variants w)) = heap w"
    by (rule Group_persistAll_heap)
  show "h (Metadata item) = Some md \<longrightarrow>
          stampGen x item h (Metadata item) = Some (md\<lparr>Gen := genData x\<rparr>)"
    by (simp add: stampGen_def)
  show "\<forall>a. a \<noteq> Metadata item \<longrightarrow> stampGen x item h a = h a"
    by (simp add: stampGen_def split: option.split)
qed

lemma Group_items_single_heap:
  "heap (snd (Group_items x g tmpDir groupName [item] w)) = stampGen x item (heap w)"
proof -
  obtain r w' where gi: "Group_item x g tmpDir groupName item w = (r, w')"
    by (cases "Group_item x g tmpDir groupName item w")
  then have "heap w' = stampGen x item (heap w)"
    by (metis Group_item_heap snd_conv)
  with gi show ?thesis
    by (cases r) simp_all
qed

lemma os_RemoveAll_heap [simp]: "heap (os_RemoveAll x w dir) = heap w"
  by (simp add: os_RemoveAll_def)

theorem Group_item_stamps_metadata_witness:
  "heap (snd (Group_item ex_extern (ex_generator OverwriteUpdate) ''tmp'' ''grp'' ex_def
            (ex_world Map.empty))) =
     [7 \<mapsto> \<lparr>ID = ''case'', Gen = [\<lparr>Source = ''genscript'', Version = ''dirty''\<rparr>], Desc = []\<rparr>]"
  using Group_item_stamps_metadata
          [where x = ex_extern and item = ex_def and h = ex_heap and g = "ex_generator OverwriteUpdate"
             and tmpDir = "''tmp''" and groupName = "''grp''" and w = "ex_world Map.empty"
             and variants = "[]" and md = "\<lparr>ID = ''case'', Gen = [], Desc = []\<rparr>"]
  by (simp add: stampGen_def ex_world_def ex_heap_def ex_def_def genData_def
        getBuildInfo_def GenscriptCommit_def ex_extern_def)

text \<open>
  C9 as stated fails: after \<open>Group\<close> has run the definition \<open>ex_def\<close>, the metadata
  object the caller's definition points to holds the generation data in \<open>Gen\<close>.
\<close>

theorem Group_metadata_counterexample:
  "heap (ex_world Map.empty) (Metadata ex_def) = Some \<lparr>ID = ''case'', Gen = [], Desc = []\<rparr>
   \<and> heap (snd (Group ex_extern (ex_generator OverwriteUpdate) ''tmp'' ''grp'' [ex_def]
                  (ex_world Map.empty))) (Metadata ex_def)
       = Some \<lparr>ID = ''case'', Gen = [\<lparr>Source = ''genscript'', Version = ''dirty''\<rparr>], Desc = []\<rparr>"
proof -
  let ?w = "ex_world Map.empty"
  let ?g = "ex_generator OverwriteUpdate"
  have v: "Group_validate ?g ''grp'' (heap ?w) [ex_def] = (Inr [ex_def], [])"
    by (simp add: ex_world_def ex_heap_def ex_def_def ex_generator_def)
  obtain r w' where gi: "Group_items ex_extern ?g ''tmp'' ''grp'' [ex_def] (?w\<lparr>logs := logs ?w @ []\<rparr>) = (r, w')"
    by (cases "Group_items ex_extern ?g ''tmp'' ''grp'' [ex_def] (?w\<lparr>logs := logs ?w @ []\<rparr>)")
  with Group_items_single_heap [of ex_extern ?g "''tmp''" "''grp''" ex_def "?w\<lparr>logs := logs ?w @ []\<rparr>"]
  have stamped: "heap w' = stampGen ex_extern ex_def (heap ?w)"
    by simp
  have out: "OutputPath ?g = ''out''"
    by (simp add: ex_generator_def)
  have nf: "\<not> Faults ex_extern OpMkTemp (''tmp'', [])"
    by (simp add: ex_extern_def)
  from gi stamped
  have "heap (snd (Group ex_extern ?g ''tmp'' ''grp'' [ex_def] ?w)) = stampGen ex_extern ex_def (heap ?w)"
    by (cases r) (simp_all add: Group_def v Let_def out nf del: Group_validate.simps)
  then show ?thesis
    by (simp add: stampGen_def ex_world_def ex_heap_def ex_def_def genData_def
        getBuildInfo_def GenscriptCommit_def ex_extern_def)
qed

section \<open>File names and the equality of files\<close>

lemma vectorFilename_hints_eq:
  "vectorFilename_hints x hints filename =
     (if HintIncorrect x \<in> set hints then brokenVectorPrefix @ filename else filename)"
  by (induction hints) auto

text \<open>
  C6. The file name of an artifact of a definition with metadata, the artifact carrying
  at least one variant tag, is \<open>group--caseID--tag.json\<close> for the first tag of its
  variant list, with the marker \<open>x--\<close> in front exactly when the hints of the definition
  contain \<open>schema.HintIncorrect\<close>. Appending the tags of merged artifacts to the list
  does not change the name: it stays that of the first-seen variant.
\<close>

theorem vectorFilename_format:
  assumes "h (Metadata item) = Some md"
      and "Variants (Pre vector) = first # rest"
  shows "vectorFilename x h groupName item vector =
           Inr ((if HintIncorrect x \<in> set (Hints item) then ''x--'' else []) @
                groupName @ ''--'' @ ID md @ ''--'' @ VariantID first @ ''.json'')
         \<and> vectorFilename x h groupName item (setVariants vector (Variants (Pre vector) @ merged)) =
             vectorFilename x h groupName item vector"
  using assms by (simp add: vectorFilename_def vectorFilename_hints_eq brokenVectorPrefix_def)

theorem vectorFilename_format_witness:
  "ex_heap (Metadata ex_def) = Some \<lparr>ID = ''case'', Gen = [], Desc = []\<rparr>
   \<and> Variants (Pre (setVariants (ex_vector ''v0'' ''abc'') [\<lparr>VariantID = ''v0''\<rparr>, \<lparr>VariantID = ''v2''\<rparr>]))
        = \<lparr>VariantID = ''v0''\<rparr> # [\<lparr>VariantID = ''v2''\<rparr>]
   \<and> vectorFilename ex_extern ex_heap ''grp'' (ex_def\<lparr>Hints := [''slow'', ''incorrect'']\<rparr>)
        (setVariants (ex_vector ''v0'' ''abc'') [\<lparr>VariantID = ''v0''\<rparr>, \<lparr>VariantID = ''v2''\<rparr>])
        = Inr ''x--grp--case--v0.json''
   \<and> vectorFilename ex_extern ex_heap ''grp'' ex_def
        (setVariants (ex_vector ''v0'' ''abc'') [\<lparr>VariantID = ''v0''\<rparr>, \<lparr>VariantID = ''v2''\<rparr>])
        = Inr ''grp--case--v0.json''"
proof -
  let ?v = "setVariants (ex_vector ''v0'' ''abc'') [\<lparr>VariantID = ''v0''\<rparr>, \<lparr>VariantID = ''v2''\<rparr>]"
  have md: "ex_heap (Metadata ex_def) = Some \<lparr>ID = ''case'', Gen = [], Desc = []\<rparr>"
    by (simp add: ex_heap_def ex_def_def)
  then have md': "ex_heap (Metadata (ex_def\<lparr>Hints := [''slow'', ''incorrect'']\<rparr>)) =
      Some \<lparr>ID = ''case'', Gen = [], Desc = []\<rparr>"
    by simp
  have vs: "Variants (Pre ?v) = \<lparr>VariantID = ''v0''\<rparr> # [\<lparr>VariantID = ''v2''\<rparr>]"
    by simp
  have broken: "vectorFilename ex_extern ex_heap ''grp'' (ex_def\<lparr>Hints := [''slow'', ''incorrect'']\<rparr>) ?v
                  = Inr ''x--grp--case--v0.json''"
    using vectorFilename_format [where x = ex_extern and h = ex_heap and groupName = "''grp''"
            and item = "ex_def\<lparr>Hints := [''slow'', ''incorrect'']\<rparr>" and vector = ?v
            and md = "\<lparr>ID = ''case'', Gen = [], Desc = []\<rparr>"
            and first = "\<lparr>VariantID = ''v0''\<rparr>" and rest = "[\<lparr>VariantID = ''v2''\<rparr>]"] md' vs
    by (simp add: ex_extern_def)
  have sound: "vectorFilename ex_extern ex_heap ''grp'' ex_def ?v = Inr ''grp--case--v0.json''"
    using vectorFilename_format [where x = ex_extern and h = ex_heap and groupName = "''grp''"
            and item = ex_def and vector = ?v
            and md = "\<lparr>ID = ''case'', Gen = [], Desc = []\<rparr>"
            and first = "\<lparr>VariantID = ''v0''\<rparr>" and rest = "[\<lparr>VariantID = ''v2''\<rparr>]"] md vs
    by (simp add: ex_extern_def ex_def_def)
  show ?thesis
    by (rule conjI [OF md conjI [OF vs conjI [OF broken sound]]])
qed






section \<open>Validation\<close>

lemma Group_validate_invalid:
  assumes "v \<in> set vectors"
      and "(MessageFunc v \<noteq> None \<and> TipsetFunc v \<noteq> None) \<or> (MessageFunc v = None \<and> TipsetFunc v = None)"
  shows "\<exists>e ls. Group_validate g groupName h vectors = (Inl (Panic e), ls)
           \<and> (\<forall>l\<in>set ls. \<exists>i. l = LogSkipping i)"
  using assms(1)
proof (induction vectors)
  case Nil
  then show ?case by simp
next
  case (Cons u vectors)
  show ?case
  proof (cases "u = v")
    case True
    with assms(2) show ?thesis
      by (auto split: option.split)
  next
    case False
    with Cons obtain e ls where
      "Group_validate g groupName h vectors = (Inl (Panic e), ls)" "\<forall>l\<in>set ls. \<exists>i. l = LogSkipping i"
      by auto
    then show ?thesis
      by (auto simp: Let_def split: option.split)
  qed
qed

text \<open>
  C8. When a definition of the group has both generation functions or none, \<open>Group\<close>
  ends in a panic during validation: no task has run, and the files, the metadata
  objects and standard output are as before (the log may hold lines of skipped
  definitions).
\<close>

theorem Group_aborts_on_invalid:
  assumes "v \<in> set vectors"
      and "(MessageFunc v \<noteq> None \<and> TipsetFunc v \<noteq> None) \<or> (MessageFunc v = None \<and> TipsetFunc v = None)"
  shows "\<exists>e ls. Group x g tmpDir groupName vectors w = (Some (Panic e), w\<lparr>logs := logs w @ ls\<rparr>)
           \<and> (\<forall>l\<in>set ls. \<exists>i. l = LogSkipping i)"
proof -
  from Group_validate_invalid [OF assms] obtain e ls where
    "Group_validate g groupName (heap w) vectors = (Inl (Panic e), ls)"
    "\<forall>l\<in>set ls. \<exists>i. l = LogSkipping i"
    by blast
  then show ?thesis
    by (auto simp: Group_def)
qed

theorem Group_aborts_on_invalid_witness:
  "ex_def\<lparr>TipsetFunc := Some ex_genfunc\<rparr> \<in> set [ex_def, ex_def\<lparr>TipsetFunc := Some ex_genfunc\<rparr>]
   \<and> MessageFunc (ex_def\<lparr>TipsetFunc := Some ex_genfunc\<rparr>) \<noteq> None
   \<and> TipsetFunc (ex_def\<lparr>TipsetFunc := Some ex_genfunc\<rparr>) \<noteq> None
   \<and> (\<exists>e ls. Group ex_extern (ex_generator OverwriteForce) ''tmp'' ''grp''
               [ex_def, ex_def\<lparr>TipsetFunc := Some ex_genfunc\<rparr>] (ex_world ex_files)
             = (Some (Panic e), (ex_world ex_files)\<lparr>logs := logs (ex_world ex_files) @ ls\<rparr>)
           \<and> (\<forall>l\<in>set ls. \<exists>i. l = LogSkipping i))"
proof -
  have mem: "ex_def\<lparr>TipsetFunc := Some ex_genfunc\<rparr> \<in> set [ex_def, ex_def\<lparr>TipsetFunc := Some ex_genfunc\<rparr>]"
    by simp
  have both: "MessageFunc (ex_def\<lparr>TipsetFunc := Some ex_genfunc\<rparr>) \<noteq> None
              \<and> TipsetFunc (ex_def\<lparr>TipsetFunc := Some ex_genfunc\<rparr>) \<noteq> None"
    by (simp add: ex_def_def)
  then have invalid: "(MessageFunc (ex_def\<lparr>TipsetFunc := Some ex_genfunc\<rparr>) \<noteq> None
              \<and> TipsetFunc (ex_def\<lparr>TipsetFunc := Some ex_genfunc\<rparr>) \<noteq> None)
            \<or> (MessageFunc (ex_def\<lparr>TipsetFunc := Some ex_genfunc\<rparr>) = None
              \<and> TipsetFunc (ex_def\<lparr>TipsetFunc := Some ex_genfunc\<rparr>) = None)"
    by (rule disjI1)
  from Group_aborts_on_invalid [OF mem invalid, of ex_extern "ex_generator OverwriteForce" "''tmp''" "''grp''" "ex_world ex_files"]
       mem both
  show ?thesis
    by blast
qed


section \<open>Persistence\<close>

lemma vectorPath_resolved:
  "vectorFilename x h groupName item v = Inr name \<Longrightarrow>
     vectorPath x h dir groupName item v = Inr (dir, name)"
  by (simp add: vectorPath_def)

lemma vectorBytesNoMeta_read:
  "vectorBytesNoMeta x w p =
     (case ioutil_ReadFile x w p of Inl e \<Rightarrow> Inl ReadError | Inr raw \<Rightarrow> bytesNoMeta x raw)"
  by (simp add: vectorBytesNoMeta_def parseVectorFile_def bytesNoMeta_def split: sum.split)

lemma committedEqualD:
  assumes "committedEqual x g groupName item h fs v"
  shows "\<exists>name old raw abytes.
           vectorFilename x h groupName item v = Inr name \<and> fs (OutputPath g, name) = Some old
           \<and> Encode x v = Inr raw \<and> bytesNoMeta x raw = Inr abytes \<and> bytesNoMeta x old = Inr abytes"
proof (cases "vectorFilename x h groupName item v")
  case (Inl e)
  with assms show ?thesis by (simp add: committedEqual_def)
next
  case name: (Inr name)
  show ?thesis
  proof (cases "fs (OutputPath g, name)")
    case None
    with assms name show ?thesis by (simp add: committedEqual_def)
  next
    case old: (Some old)
    show ?thesis
    proof (cases "Encode x v")
      case (Inl e)
      with assms name old show ?thesis by (simp add: committedEqual_def)
    next
      case raw: (Inr raw)
      show ?thesis
      proof (cases "bytesNoMeta x raw")
        case (Inl e)
        with assms name old raw show ?thesis by (simp add: committedEqual_def)
      next
        case (Inr abytes)
        with assms name old raw show ?thesis by (simp add: committedEqual_def)
      qed
    qed
  qed
qed

text \<open>The step of the loop when the committed file compares equal: no move into place.\<close>

lemma Group_persist_equal:
  assumes mode: "Mode g \<noteq> OverwriteForce"
      and dirs: "tmpDir \<noteq> OutputPath g"
      and eq: "committedEqual x g groupName item (heap w) (files w) v"
  shows "fst (Group_persist x g tmpDir groupName item v w) = None
         \<and> stdout (snd (Group_persist x g tmpDir groupName item v w)) = stdout w
         \<and> (\<forall>p. fst p \<noteq> tmpDir \<longrightarrow> files (snd (Group_persist x g tmpDir groupName item v w)) p = files w p)
         \<and> (\<exists>l. logs (snd (Group_persist x g tmpDir groupName item v w)) = logs w @ [l]
                \<and> (\<forall>p. l \<noteq> LogWrote p))"
proof -
  from committedEqualD [OF eq] obtain name old raw abytes where
    name: "vectorFilename x (heap w) groupName item v = Inr name"
    and old: "files w (OutputPath g, name) = Some old"
    and raw: "Encode x v = Inr raw"
    and a: "bytesNoMeta x raw = Inr abytes"
    and b: "bytesNoMeta x old = Inr abytes"
    by blast
  let ?tmp = "(tmpDir, name)"
  let ?existing = "(OutputPath g, name)"
  let ?w1 = "w\<lparr>files := (files w)(?tmp \<mapsto> raw)\<rparr>"
  have existing: "files ?w1 ?existing = Some old"
    using dirs old by simp
  have "vectorsEqual x ?w1 ?tmp ?existing = Inr True \<or> (\<exists>e. vectorsEqual x ?w1 ?tmp ?existing = Inl e)"
    using existing a b
    by (auto simp: vectorsEqual_def vectorBytesNoMeta_read ioutil_ReadFile_def split: sum.splits)
  moreover have "os_Stat x ?w1 ?existing \<noteq> StatNotExist"
    using existing by (simp add: os_Stat_def)
  ultimately show ?thesis
    using mode
    by (cases "os_Stat x ?w1 ?existing")
       (auto simp: Group_persist_def vectorPath_resolved [OF name] raw Let_def addLog_def)
qed

lemma committedEqual_cong:
  assumes "tmpDir \<noteq> OutputPath g"
      and "\<forall>p. fst p \<noteq> tmpDir \<longrightarrow> fs p = fs' p"
  shows "committedEqual x g groupName item h fs v = committedEqual x g groupName item h fs' v"
proof -
  from assms have "fs (OutputPath g, name) = fs' (OutputPath g, name)" for name
    by simp
  then show ?thesis
    by (simp add: committedEqual_def split: sum.split)
qed

lemma Group_persistAll_equal:
  assumes mode: "Mode g \<noteq> OverwriteForce"
      and dirs: "tmpDir \<noteq> OutputPath g"
  shows "\<forall>v\<in>set variants. committedEqual x g groupName item (heap w) (files w) v \<Longrightarrow>
         fst (Group_persistAll x g tmpDir groupName item variants w) = None
         \<and> stdout (snd (Group_persistAll x g tmpDir groupName item variants w)) = stdout w
         \<and> (\<forall>p. fst p \<noteq> tmpDir \<longrightarrow>
               files (snd (Group_persistAll x g tmpDir groupName item variants w)) p = files w p)
         \<and> (\<exists>ls. logs (snd (Group_persistAll x g tmpDir groupName item variants w)) = logs w @ ls
                \<and> (\<forall>l\<in>set ls. \<forall>p. l \<noteq> LogWrote p))"
proof (induction variants arbitrary: w)
  case Nil
  show ?case by simp
next
  case (Cons v variants)
  obtain r w' where step: "Group_persist x g tmpDir groupName item v w = (r, w')"
    by (cases "Group_persist x g tmpDir groupName item v w")
  from Cons.prems have "committedEqual x g groupName item (heap w) (files w) v"
    by simp
  from Group_persist_equal [OF mode dirs this] step obtain l where
    r: "r = None" and out: "stdout w' = stdout w"
    and fs: "\<forall>p. fst p \<noteq> tmpDir \<longrightarrow> files w' p = files w p"
    and l: "logs w' = logs w @ [l]" "\<forall>p. l \<noteq> LogWrote p"
    by auto
  have "heap w' = heap w"
    using Group_persist_heap [of x g tmpDir groupName item v w] step by simp
  then have "\<forall>u\<in>set variants. committedEqual x g groupName item (heap w') (files w') u"
    using Cons.prems committedEqual_cong [OF dirs fs] by simp
  from Cons.IH [OF this] obtain ls where
    "fst (Group_persistAll x g tmpDir groupName item variants w') = None"
    "stdout (snd (Group_persistAll x g tmpDir groupName item variants w')) = stdout w'"
    "\<forall>p. fst p \<noteq> tmpDir \<longrightarrow>
        files (snd (Group_persistAll x g tmpDir groupName item variants w')) p = files w' p"
    "logs (snd (Group_persistAll x g tmpDir groupName item variants w')) = logs w' @ ls"
    "\<forall>l\<in>set ls. \<forall>p. l \<noteq> LogWrote p"
    by blast
  with step r out fs l show ?case
    by simp
qed


lemma ex_vectorFilename:
  "vectorFilename ex_extern ex_heap ''grp'' ex_def (ex_vector ''v0'' body) = Inr ex_name"
  by (simp add: vectorFilename_def ex_heap_def ex_def_def ex_vector_def ex_name_def)









section \<open>The twin of a written file\<close>

lemma strings_Replace1_prefix:
  "prefix old s \<Longrightarrow> strings_Replace1 s old new = new @ drop (length old) s"
  by (cases s) auto

lemma marker_prefix_of_name:
  assumes "\<not> prefix ''x--'' (groupName @ ''--'')"
  shows "\<not> prefix ''x--'' (groupName @ ''--'' @ rest)"
proof (cases groupName)
  case Nil
  then show ?thesis by simp
next
  case g1: (Cons c g')
  show ?thesis
  proof (cases g')
    case Nil
    with g1 assms show ?thesis by simp
  next
    case g2: (Cons d g'')
    show ?thesis
    proof (cases g'')
      case Nil
      with g1 g2 assms show ?thesis by simp
    next
      case (Cons e g''')
      with g1 g2 assms show ?thesis by simp
    qed
  qed
qed

text \<open>
  The file \<open>removePrevious\<close> removes is the twin, when the definition carries the hint
  or the name without the marker does not itself begin with the marker.
\<close>

lemma removePrevious_twin:
  assumes name: "vectorFilename x (heap w) groupName item v = Inr name"
      and marker: "HintIncorrect x \<in> set (Hints item) \<or> \<not> prefix brokenVectorPrefix (groupName @ ''--'')"
  shows "removePrevious x w dir groupName item v = Inr (os_Remove x w (dir, twinFilename x item name))"
proof (cases "HintIncorrect x \<in> set (Hints item)")
  case True
  with name have "prefix brokenVectorPrefix name"
    by (auto simp: vectorFilename_def vectorFilename_hints_eq split: option.splits list.splits)
  with True name show ?thesis
    by (simp add: removePrevious_def twinFilename_def strings_Replace1_prefix)
next
  case False
  with marker have "\<not> prefix ''x--'' (groupName @ ''--'')"
    by (simp add: brokenVectorPrefix_def)
  from marker_prefix_of_name [OF this] False name have "\<not> prefix brokenVectorPrefix name"
    by (auto simp: vectorFilename_def vectorFilename_hints_eq brokenVectorPrefix_def
             split: option.splits list.splits)
  with False name show ?thesis
    by (simp add: removePrevious_def twinFilename_def)
qed

lemma twinFilename_differs:
  assumes "vectorFilename x h groupName item v = Inr name"
  shows "twinFilename x item name \<noteq> name"
proof (cases "HintIncorrect x \<in> set (Hints item)")
  case True
  with assms have "length name \<ge> length brokenVectorPrefix"
    by (auto simp: vectorFilename_def vectorFilename_hints_eq split: option.splits list.splits)
  then have "length (drop (length brokenVectorPrefix) name) < length name"
    by (simp add: brokenVectorPrefix_def)
  then have "drop (length brokenVectorPrefix) name \<noteq> name"
    by (metis less_irrefl)
  with True show ?thesis
    by (simp add: twinFilename_def)
next
  case False
  then show ?thesis
    by (simp add: twinFilename_def brokenVectorPrefix_def)
qed

text \<open>
  C5, as amended. After the move into place and the removal of the twin (lines
  351-361), when the file system does not refuse the removal and the definition carries
  the hint or the name without the marker does not itself begin with the marker: no file
  has the twin name in the output directory; and when the move succeeded, the file at
  the final path is the new one.
\<close>

theorem Group_write_removes_twin:
  assumes "vectorFilename x (heap w) groupName item v = Inr name"
      and "HintIncorrect x \<in> set (Hints item) \<or> \<not> prefix brokenVectorPrefix (groupName @ ''--'')"
      and "\<not> Faults x OpRemove (OutputPath g, twinFilename x item name)"
      and "tmpDir \<noteq> OutputPath g"
  shows "fst (Group_write x g groupName item v (tmpDir, name) (OutputPath g, name) w) = None
         \<and> files (snd (Group_write x g groupName item v (tmpDir, name) (OutputPath g, name) w))
              (OutputPath g, twinFilename x item name) = None
         \<and> (\<not> Faults x OpRename (OutputPath g, name) \<and> files w (tmpDir, name) = Some raw
              \<longrightarrow> files (snd (Group_write x g groupName item v (tmpDir, name) (OutputPath g, name) w))
                    (OutputPath g, name) = Some raw)"
proof -
  obtain err w1 where rename: "os_Rename x w (tmpDir, name) (OutputPath g, name) = (err, w1)"
    by (cases "os_Rename x w (tmpDir, name) (OutputPath g, name)")
  let ?w1 = "case err of None \<Rightarrow> w1 | Some e \<Rightarrow> addLog LogFailedMove w1"
  have heap: "heap ?w1 = heap w"
    using rename os_Rename_heap [of x w "(tmpDir, name)" "(OutputPath g, name)"]
    by (simp split: option.split)
  have twin: "removePrevious x ?w1 (OutputPath g) groupName item v =
                Inr (os_Remove x ?w1 (OutputPath g, twinFilename x item name))"
    by (rule removePrevious_twin) (simp_all add: heap assms)
  have differs: "twinFilename x item name \<noteq> name"
    by (rule twinFilename_differs [OF assms(1)])
  have moved: "files ?w1 (OutputPath g, name) = Some raw"
    if "\<not> Faults x OpRename (OutputPath g, name)" "files w (tmpDir, name) = Some raw"
    using that rename by (auto simp: os_Rename_def split: option.splits)
  have "Group_write x g groupName item v (tmpDir, name) (OutputPath g, name) w =
          (None, addLog (LogWrote (OutputPath g, name))
                   (?w1\<lparr>files := (files ?w1)((OutputPath g, twinFilename x item name) := None)\<rparr>))"
    using rename twin assms(3)
    by (cases err) (simp_all add: Group_write_def os_Remove_def)
  with differs moved show ?thesis
    by simp
qed


lemma ex_twinFilename: "twinFilename ex_extern ex_def ex_name = ''x--grp--case--v0.json''"
  by (simp add: twinFilename_def ex_extern_def ex_def_def ex_name_def brokenVectorPrefix_def)

theorem Group_write_removes_twin_witness:
  "vectorFilename ex_extern (heap (ex_world [(''tmp'', ex_name) \<mapsto> ''M+v0:abc'',
       (''out'', ''x--grp--case--v0.json'') \<mapsto> ''M+old''])) ''grp'' ex_def (ex_vector ''v0'' ''abc'') = Inr ex_name
   \<and> \<not> prefix brokenVectorPrefix (''grp'' @ ''--'')
   \<and> \<not> Faults ex_extern OpRemove (OutputPath (ex_generator OverwriteUpdate), twinFilename ex_extern ex_def ex_name)
   \<and> ''tmp'' \<noteq> OutputPath (ex_generator OverwriteUpdate)
   \<and> files (snd (Group_write ex_extern (ex_generator OverwriteUpdate) ''grp'' ex_def (ex_vector ''v0'' ''abc'')
        (''tmp'', ex_name) (''out'', ex_name)
        (ex_world [(''tmp'', ex_name) \<mapsto> ''M+v0:abc'', (''out'', ''x--grp--case--v0.json'') \<mapsto> ''M+old''])))
        (''out'', ''x--grp--case--v0.json'') = None
   \<and> files (snd (Group_write ex_extern (ex_generator OverwriteUpdate) ''grp'' ex_def (ex_vector ''v0'' ''abc'')
        (''tmp'', ex_name) (''out'', ex_name)
        (ex_world [(''tmp'', ex_name) \<mapsto> ''M+v0:abc'', (''out'', ''x--grp--case--v0.json'') \<mapsto> ''M+old''])))
        (''out'', ex_name) = Some ''M+v0:abc''"
proof -
  let ?g = "ex_generator OverwriteUpdate"
  let ?w = "ex_world [(''tmp'', ex_name) \<mapsto> ''M+v0:abc'', (''out'', ''x--grp--case--v0.json'') \<mapsto> ''M+old'']"
  have name: "vectorFilename ex_extern (heap ?w) ''grp'' ex_def (ex_vector ''v0'' ''abc'') = Inr ex_name"
    by (simp add: ex_world_def ex_vectorFilename)
  have marker: "\<not> prefix brokenVectorPrefix (''grp'' @ ''--'')"
    by (simp add: brokenVectorPrefix_def)
  then have marker': "HintIncorrect ex_extern \<in> set (Hints ex_def) \<or> \<not> prefix brokenVectorPrefix (''grp'' @ ''--'')"
    by (rule disjI2)
  have remove: "\<not> Faults ex_extern OpRemove (OutputPath ?g, twinFilename ex_extern ex_def ex_name)"
    by (simp add: ex_extern_def)
  have dirs: "''tmp'' \<noteq> OutputPath ?g"
    by (simp add: ex_generator_def)
  have pre: "\<not> Faults ex_extern OpRename (OutputPath ?g, ex_name) \<and> files ?w (''tmp'', ex_name) = Some ''M+v0:abc''"
    by (simp add: ex_extern_def ex_world_def ex_name_def)
  from Group_write_removes_twin [OF name marker' remove dirs, of "''M+v0:abc''"] pre
  have "files (snd (Group_write ex_extern ?g ''grp'' ex_def (ex_vector ''v0'' ''abc'')
          (''tmp'', ex_name) (''out'', ex_name) ?w)) (''out'', ''x--grp--case--v0.json'') = None
        \<and> files (snd (Group_write ex_extern ?g ''grp'' ex_def (ex_vector ''v0'' ''abc'')
          (''tmp'', ex_name) (''out'', ex_name) ?w)) (''out'', ex_name) = Some ''M+v0:abc''"
    by (simp add: ex_twinFilename) (simp add: ex_generator_def)
  with name marker remove dirs show ?thesis
    by blast
qed

lemma Group_persist_new_file:
  assumes "\<And>op p. op \<noteq> OpRemove \<Longrightarrow> \<not> Faults x op p"
      and "vectorFilename x (heap w) groupName item v = Inr name"
      and "Encode x v = Inr raw"
      and "files w (OutputPath g, name) = None"
      and "tmpDir \<noteq> OutputPath g"
  shows "Group_persist x g tmpDir groupName item v w =
           Group_write x g groupName item v (tmpDir, name) (OutputPath g, name)
             (w\<lparr>files := (files w)((tmpDir, name) \<mapsto> raw)\<rparr>)"
  using assms by (simp add: Group_persist_def vectorPath_resolved os_Stat_def)

text \<open>
  C5 as stated fails: the file system refusing removals in the output directory, the
  artifact is moved into place at \<open>grp--case--v0.json\<close> and the twin
  \<open>x--grp--case--v0.json\<close> of an earlier run stays; the failure is logged.
\<close>

theorem Group_persist_twin_counterexample:
  "twinFilename ex_extern_ro ex_def ex_name = ''x--grp--case--v0.json''
   \<and> fst (Group_persist ex_extern_ro (ex_generator OverwriteUpdate) ''tmp'' ''grp'' ex_def
        (ex_vector ''v0'' ''abc'') (ex_world [(''out'', ''x--grp--case--v0.json'') \<mapsto> ''M+old''])) = None
   \<and> files (snd (Group_persist ex_extern_ro (ex_generator OverwriteUpdate) ''tmp'' ''grp'' ex_def
        (ex_vector ''v0'' ''abc'') (ex_world [(''out'', ''x--grp--case--v0.json'') \<mapsto> ''M+old''])))
        (''out'', ex_name) = Some ''M+v0:abc''
   \<and> files (snd (Group_persist ex_extern_ro (ex_generator OverwriteUpdate) ''tmp'' ''grp'' ex_def
        (ex_vector ''v0'' ''abc'') (ex_world [(''out'', ''x--grp--case--v0.json'') \<mapsto> ''M+old''])))
        (''out'', ''x--grp--case--v0.json'') = Some ''M+old''
   \<and> logs (snd (Group_persist ex_extern_ro (ex_generator OverwriteUpdate) ''tmp'' ''grp'' ex_def
        (ex_vector ''v0'' ''abc'') (ex_world [(''out'', ''x--grp--case--v0.json'') \<mapsto> ''M+old''])))
        = [LogFailedRemovePrevious RemoveError, LogWrote (''out'', ex_name)]"
proof -
  let ?g = "ex_generator OverwriteUpdate"
  let ?w = "ex_world [(''out'', ''x--grp--case--v0.json'') \<mapsto> ''M+old'']"
  have name: "vectorFilename ex_extern_ro (heap ?w) ''grp'' ex_def (ex_vector ''v0'' ''abc'') = Inr ex_name"
    by (simp add: vectorFilename_def ex_world_def ex_heap_def ex_def_def ex_vector_def ex_name_def)
  have twin: "twinFilename ex_extern_ro ex_def ex_name = ''x--grp--case--v0.json''"
    by (simp add: twinFilename_def ex_extern_ro_def ex_extern_def ex_def_def ex_name_def brokenVectorPrefix_def)
  have persist: "Group_persist ex_extern_ro ?g ''tmp'' ''grp'' ex_def (ex_vector ''v0'' ''abc'') ?w =
      Group_write ex_extern_ro ?g ''grp'' ex_def (ex_vector ''v0'' ''abc'') (''tmp'', ex_name) (OutputPath ?g, ex_name)
        (?w\<lparr>files := (files ?w)((''tmp'', ex_name) \<mapsto> ''M+v0:abc'')\<rparr>)"
    by (rule Group_persist_new_file [OF _ name])
       (simp_all add: ex_extern_ro_def ex_extern_def ex_marshal_def ex_vector_def ex_world_def
          ex_generator_def ex_name_def)
  have remove: "removePrevious ex_extern_ro w' (OutputPath ?g) ''grp'' ex_def (ex_vector ''v0'' ''abc'') =
      Inr (Some RemoveError, w')" if "heap w' = heap ?w" for w'
    using name that
    by (simp add: removePrevious_def os_Remove_def ex_extern_ro_def ex_name_def brokenVectorPrefix_def)
  show ?thesis
    unfolding persist
    by (simp add: twin Group_write_def os_Rename_def remove addLog_def)
       (simp add: ex_extern_ro_def ex_world_def ex_generator_def ex_name_def)
qed

text \<open>
  A case the amended statement leaves out: a group named \<open>x\<close> and a definition without
  the hint. The name \<open>x--case--v0.json\<close> begins with the marker, so \<open>removePrevious\<close>
  takes it for the name of a broken vector: it removes \<open>case--v0.json\<close>, and the twin
  \<open>x--x--case--v0.json\<close> stays.
\<close>

lemma removePrevious_marker_in_name:
  "twinFilename ex_extern ex_def ''x--case--v0.json'' = ''x--x--case--v0.json''
   \<and> removePrevious ex_extern
        (ex_world [(''out'', ''x--x--case--v0.json'') \<mapsto> ''M+old'', (''out'', ''case--v0.json'') \<mapsto> ''M+other''])
        ''out'' ''x'' ex_def (ex_vector ''v0'' ''abc'') =
      Inr (None, ex_world [(''out'', ''x--x--case--v0.json'') \<mapsto> ''M+old'', (''out'', ''case--v0.json'') \<mapsto> ''M+other'']
                   \<lparr>files := [(''out'', ''x--x--case--v0.json'') \<mapsto> ''M+old'', (''out'', ''case--v0.json'') \<mapsto> ''M+other'']
                              ((''out'', ''case--v0.json'') := None)\<rparr>)"
  by (simp add: twinFilename_def removePrevious_def vectorFilename_def os_Remove_def
        brokenVectorPrefix_def ex_world_def ex_heap_def ex_def_def ex_vector_def)
     (simp add: ex_extern_def)


section \<open>A second run\<close>

lemma removePrevious_target:
  assumes "vectorFilename x (heap w) groupName item v = Inr name"
  shows "\<exists>t. t \<noteq> name \<and> removePrevious x w dir groupName item v = Inr (os_Remove x w (dir, t))"
proof (cases "prefix brokenVectorPrefix name")
  case True
  then have "length brokenVectorPrefix \<le> length name"
    by (rule prefix_length_le)
  then have "length (drop (length brokenVectorPrefix) name) < length name"
    by (simp add: brokenVectorPrefix_def)
  then have "drop (length brokenVectorPrefix) name \<noteq> name"
    by (metis less_irrefl)
  with True assms show ?thesis
    by (intro exI [of _ "drop (length brokenVectorPrefix) name"])
       (simp add: removePrevious_def strings_Replace1_prefix)
next
  case False
  with assms show ?thesis
    by (intro exI [of _ "brokenVectorPrefix @ name"])
       (simp add: removePrevious_def brokenVectorPrefix_def)
qed

lemma Group_write_moves:
  assumes name: "vectorFilename x (heap w) groupName item v = Inr name"
      and faults: "\<forall>op p. \<not> Faults x op p"
      and tmp: "files w (tmpDir, name) = Some raw"
      and dirs: "tmpDir \<noteq> OutputPath g"
  shows "files (snd (Group_write x g groupName item v (tmpDir, name) (OutputPath g, name) w))
           (OutputPath g, name) = Some raw"
proof -
  let ?w1 = "w\<lparr>files := ((files w)((tmpDir, name) := None))((OutputPath g, name) \<mapsto> raw)\<rparr>"
  have rename: "os_Rename x w (tmpDir, name) (OutputPath g, name) = (None, ?w1)"
    using faults tmp by (simp add: os_Rename_def)
  from removePrevious_target [of x ?w1 groupName item v name "OutputPath g"] name
  obtain t where t: "t \<noteq> name"
    "removePrevious x ?w1 (OutputPath g) groupName item v = Inr (os_Remove x ?w1 (OutputPath g, t))"
    by auto
  then show ?thesis
    using faults by (simp add: Group_write_def rename os_Remove_def)
qed

text \<open>
  What a first run under the Update policy leaves: no file operation being refused, the
  encoding of the artifact being a file that parses, and the file committed before (if
  any) parsing too, the committed file compares equal to the artifact after the step.
  With \<open>Group_persist_equal\<close>, the same step run again moves nothing into place.
\<close>

lemma Group_persist_update_settles:
  assumes mode: "Mode g = OverwriteUpdate"
      and dirs: "tmpDir \<noteq> OutputPath g"
      and faults: "\<forall>op p. \<not> Faults x op p"
      and name: "vectorFilename x (heap w) groupName item v = Inr name"
      and raw: "Encode x v = Inr raw"
      and abytes: "bytesNoMeta x raw = Inr abytes"
      and old: "files w (OutputPath g, name) = None
                \<or> (\<exists>old bbytes. files w (OutputPath g, name) = Some old \<and> bytesNoMeta x old = Inr bbytes)"
  shows "committedEqual x g groupName item
           (heap (snd (Group_persist x g tmpDir groupName item v w)))
           (files (snd (Group_persist x g tmpDir groupName item v w))) v"
proof -
  let ?tmp = "(tmpDir, name)"
  let ?existing = "(OutputPath g, name)"
  let ?w1 = "w\<lparr>files := (files w)(?tmp \<mapsto> raw)\<rparr>"
  have settled: "committedEqual x g groupName item (heap w') (files w') v"
    if "heap w' = heap w" "\<exists>c. files w' ?existing = Some c \<and> bytesNoMeta x c = Inr abytes" for w' :: world
    using that name raw abytes by (auto simp: committedEqual_def)
  have written: "committedEqual x g groupName item
      (heap (snd (Group_write x g groupName item v ?tmp ?existing w')))
      (files (snd (Group_write x g groupName item v ?tmp ?existing w'))) v"
    if "heap w' = heap w" "files w' ?tmp = Some raw" for w' :: world
  proof (rule settled)
    show "heap (snd (Group_write x g groupName item v ?tmp ?existing w')) = heap w"
      using that by simp
    have "files (snd (Group_write x g groupName item v ?tmp ?existing w')) ?existing = Some raw"
      by (rule Group_write_moves) (simp_all add: that name faults dirs)
    with abytes show "\<exists>c. files (snd (Group_write x g groupName item v ?tmp ?existing w')) ?existing = Some c
        \<and> bytesNoMeta x c = Inr abytes"
      by simp
  qed
  from old show ?thesis
  proof
    assume "files w ?existing = None"
    then have "Group_persist x g tmpDir groupName item v w =
                 Group_write x g groupName item v ?tmp ?existing ?w1"
      using faults dirs by (simp add: Group_persist_def vectorPath_resolved [OF name] raw os_Stat_def)
    with written [of ?w1] show ?thesis
      by simp
  next
    assume "\<exists>old bbytes. files w ?existing = Some old \<and> bytesNoMeta x old = Inr bbytes"
    then obtain old bbytes where o: "files w ?existing = Some old" "bytesNoMeta x old = Inr bbytes"
      by blast
    have stat: "os_Stat x ?w1 ?existing = StatOk"
      using faults dirs o by (simp add: os_Stat_def)
    have eq: "vectorsEqual x ?w1 ?tmp ?existing = Inr (abytes = bbytes)"
      using faults dirs o abytes
      by (simp add: vectorsEqual_def vectorBytesNoMeta_read ioutil_ReadFile_def)
    show ?thesis
    proof (cases "abytes = bbytes")
      case True
      then have "Group_persist x g tmpDir groupName item v w = (None, addLog (LogNoChanges ?existing) ?w1)"
        using faults mode stat eq
        by (simp add: Group_persist_def vectorPath_resolved [OF name] raw)
      moreover have "committedEqual x g groupName item (heap (addLog (LogNoChanges ?existing) ?w1))
                       (files (addLog (LogNoChanges ?existing) ?w1)) v"
        using dirs o True by (intro settled) simp_all
      ultimately show ?thesis
        by simp
    next
      case False
      then have "Group_persist x g tmpDir groupName item v w =
                   Group_write x g groupName item v ?tmp ?existing (addLog (LogOverwriting ?existing) ?w1)"
        using faults mode stat eq
        by (simp add: Group_persist_def vectorPath_resolved [OF name] raw)
      with written [of "addLog (LogOverwriting ?existing) ?w1"] show ?thesis
        by simp
    qed
  qed
qed


section \<open>Two runs of the artifacts of a definition\<close>

lemma removePrevious_removalTarget:
  "vectorFilename x (heap w) groupName item v = Inr name \<Longrightarrow>
     removePrevious x w dir groupName item v = Inr (os_Remove x w (dir, removalTarget name))"
  by (simp add: removePrevious_def removalTarget_def)

lemma Group_write_frame:
  assumes name: "vectorFilename x (heap w) groupName item v = Inr name"
  shows "fst (Group_write x g groupName item v (tmpDir, name) (OutputPath g, name) w) = None
         \<and> (\<forall>p. p \<noteq> (tmpDir, name) \<and> p \<noteq> (OutputPath g, name)
                  \<and> p \<noteq> (OutputPath g, removalTarget name) \<longrightarrow>
               files (snd (Group_write x g groupName item v (tmpDir, name) (OutputPath g, name) w)) p
                 = files w p)"
proof -
  obtain err w1 where rename: "os_Rename x w (tmpDir, name) (OutputPath g, name) = (err, w1)"
    by (cases "os_Rename x w (tmpDir, name) (OutputPath g, name)")
  let ?w1 = "case err of None \<Rightarrow> w1 | Some e \<Rightarrow> addLog LogFailedMove w1"
  have heap: "heap ?w1 = heap w"
    using rename os_Rename_heap [of x w "(tmpDir, name)" "(OutputPath g, name)"]
    by (simp split: option.split)
  have files: "files ?w1 p = files w p" if "p \<noteq> (tmpDir, name)" "p \<noteq> (OutputPath g, name)" for p
    using rename that by (auto simp: os_Rename_def split: option.splits if_splits)
  have remove: "removePrevious x ?w1 (OutputPath g) groupName item v =
                  Inr (os_Remove x ?w1 (OutputPath g, removalTarget name))"
    by (rule removePrevious_removalTarget) (simp add: heap name)
  obtain err' w2 where r: "os_Remove x ?w1 (OutputPath g, removalTarget name) = (err', w2)"
    by (cases "os_Remove x ?w1 (OutputPath g, removalTarget name)")
  then have w2: "files w2 p = files ?w1 p" if "p \<noteq> (OutputPath g, removalTarget name)" for p
    using that by (auto simp: os_Remove_def split: if_splits)
  have "Group_write x g groupName item v (tmpDir, name) (OutputPath g, name) w =
          (None, addLog (LogWrote (OutputPath g, name))
                   (case err' of None \<Rightarrow> w2 | Some e \<Rightarrow> addLog (LogFailedRemovePrevious e) w2))"
    using rename remove r by (cases err; cases err') (simp_all add: Group_write_def)
  then show ?thesis
    using files w2 by (cases err') simp_all
qed

lemma Group_persist_frame:
  assumes name: "vectorFilename x (heap w) groupName item v = Inr name"
  shows "fst (Group_persist x g tmpDir groupName item v w) = None
         \<and> (\<forall>p. p \<noteq> (tmpDir, name) \<and> p \<noteq> (OutputPath g, name)
                  \<and> p \<noteq> (OutputPath g, removalTarget name) \<longrightarrow>
               files (snd (Group_persist x g tmpDir groupName item v w)) p = files w p)"
proof -
  have moved: "fst (Group_write x g groupName item v (tmpDir, name) (OutputPath g, name) w') = None
         \<and> (\<forall>p. p \<noteq> (tmpDir, name) \<and> p \<noteq> (OutputPath g, name)
                  \<and> p \<noteq> (OutputPath g, removalTarget name) \<longrightarrow>
               files (snd (Group_write x g groupName item v (tmpDir, name) (OutputPath g, name) w')) p
                 = files w p)"
    if "heap w' = heap w" "\<forall>p. p \<noteq> (tmpDir, name) \<longrightarrow> files w' p = files w p" for w' :: world
    using Group_write_frame [of x w' groupName item v name g tmpDir] that name by simp
  show ?thesis
  proof (cases "Encode x v")
    case (Inl e)
    then show ?thesis
      by (simp add: Group_persist_def vectorPath_resolved [OF name])
  next
    case (Inr raw)
    let ?w1 = "w\<lparr>files := (files w)((tmpDir, name) \<mapsto> raw)\<rparr>"
    have w1: "heap ?w1 = heap w" "\<forall>p. p \<noteq> (tmpDir, name) \<longrightarrow> files ?w1 p = files w p"
      by simp_all
    have w1': "heap (addLog l ?w1) = heap w" "\<forall>p. p \<noteq> (tmpDir, name) \<longrightarrow> files (addLog l ?w1) p = files w p" for l
      by simp_all
    note moved [OF w1] moved [OF w1']
    then show ?thesis
      using Inr
      by (cases "os_Stat x ?w1 (OutputPath g, name)")
         (simp_all add: Group_persist_def vectorPath_resolved [OF name] Let_def split: sum.split)
  qed
qed

lemma filenameOf_resolved:
  "vectorFilename x h groupName item v = Inr name \<Longrightarrow> filenameOf x h groupName item v = name"
  by (simp add: filenameOf_def)

lemma Group_persistAll_frame:
  "\<forall>v\<in>set variants. \<exists>name. vectorFilename x (heap w) groupName item v = Inr name \<Longrightarrow>
   fst (Group_persistAll x g tmpDir groupName item variants w) = None
   \<and> (\<forall>p. fst p \<noteq> tmpDir
          \<and> p \<notin> (\<lambda>v. (OutputPath g, filenameOf x (heap w) groupName item v)) ` set variants
          \<and> p \<notin> (\<lambda>v. (OutputPath g, removalTarget (filenameOf x (heap w) groupName item v))) ` set variants
        \<longrightarrow> files (snd (Group_persistAll x g tmpDir groupName item variants w)) p = files w p)"
proof (induction variants arbitrary: w)
  case Nil
  show ?case by simp
next
  case (Cons v variants)
  from Cons.prems obtain name where name: "vectorFilename x (heap w) groupName item v = Inr name"
    by auto
  obtain r w' where step: "Group_persist x g tmpDir groupName item v w = (r, w')"
    by (cases "Group_persist x g tmpDir groupName item v w")
  have heap: "heap w' = heap w"
    using Group_persist_heap [of x g tmpDir groupName item v w] step by simp
  from Group_persist_frame [OF name, of g tmpDir] step
  have r: "r = None"
    and frame: "\<forall>p. p \<noteq> (tmpDir, name) \<and> p \<noteq> (OutputPath g, name)
                  \<and> p \<noteq> (OutputPath g, removalTarget name) \<longrightarrow> files w' p = files w p"
    by simp_all
  have "\<forall>u\<in>set variants. \<exists>name. vectorFilename x (heap w') groupName item u = Inr name"
    using Cons.prems heap by simp
  from Cons.IH [OF this] heap
  have rest: "fst (Group_persistAll x g tmpDir groupName item variants w') = None"
    "\<forall>p. fst p \<noteq> tmpDir
          \<and> p \<notin> (\<lambda>v. (OutputPath g, filenameOf x (heap w) groupName item v)) ` set variants
          \<and> p \<notin> (\<lambda>v. (OutputPath g, removalTarget (filenameOf x (heap w) groupName item v))) ` set variants
        \<longrightarrow> files (snd (Group_persistAll x g tmpDir groupName item variants w')) p = files w' p"
    by simp_all
  show ?case
    using step r rest frame filenameOf_resolved [OF name]
    by auto
qed

lemma committedEqual_files:
  assumes "vectorFilename x h groupName item v = Inr name"
      and "fs (OutputPath g, name) = fs' (OutputPath g, name)"
  shows "committedEqual x g groupName item h fs v = committedEqual x g groupName item h fs' v"
  using assms by (simp add: committedEqual_def)

lemma settleable_files:
  assumes "vectorFilename x h groupName item v = Inr name"
      and "fs (OutputPath g, name) = fs' (OutputPath g, name)"
  shows "settleable x g groupName item h fs v = settleable x g groupName item h fs' v"
  using assms by (simp add: settleable_def split: sum.split)

lemma settleableD:
  assumes "settleable x g groupName item h fs v"
  shows "\<exists>name raw abytes.
           vectorFilename x h groupName item v = Inr name \<and> Encode x v = Inr raw
           \<and> bytesNoMeta x raw = Inr abytes
           \<and> (fs (OutputPath g, name) = None
                \<or> (\<exists>old bbytes. fs (OutputPath g, name) = Some old \<and> bytesNoMeta x old = Inr bbytes))"
proof (cases "vectorFilename x h groupName item v")
  case (Inl e)
  with assms show ?thesis by (simp add: settleable_def)
next
  case name: (Inr name)
  show ?thesis
  proof (cases "Encode x v")
    case (Inl e)
    with assms name show ?thesis by (simp add: settleable_def)
  next
    case raw: (Inr raw)
    show ?thesis
    proof (cases "bytesNoMeta x raw")
      case (Inl e)
      with assms name raw show ?thesis by (simp add: settleable_def)
    next
      case abytes: (Inr abytes)
      show ?thesis
      proof (cases "fs (OutputPath g, name)")
        case None
        with name raw abytes show ?thesis by simp
      next
        case (Some old)
        with assms name raw abytes show ?thesis
          by (cases "bytesNoMeta x old") (simp_all add: settleable_def)
      qed
    qed
  qed
qed

lemma Group_persist_settles:
  assumes "Mode g = OverwriteUpdate"
      and "tmpDir \<noteq> OutputPath g"
      and "\<forall>op p. \<not> Faults x op p"
      and "settleable x g groupName item (heap w) (files w) v"
  shows "committedEqual x g groupName item
           (heap (snd (Group_persist x g tmpDir groupName item v w)))
           (files (snd (Group_persist x g tmpDir groupName item v w))) v"
proof -
  from settleableD [OF assms(4)] obtain name raw abytes where
    "vectorFilename x (heap w) groupName item v = Inr name" "Encode x v = Inr raw"
    "bytesNoMeta x raw = Inr abytes"
    "files w (OutputPath g, name) = None
      \<or> (\<exists>old bbytes. files w (OutputPath g, name) = Some old \<and> bytesNoMeta x old = Inr bbytes)"
    by blast
  with assms(1-3) show ?thesis
    by (rule Group_persist_update_settles)
qed


lemma separateNames_Cons:
  assumes "separateNames (n # names)"
  shows "separateNames names"
    and "\<forall>m\<in>set names. m \<noteq> n \<and> m \<noteq> removalTarget n \<and> n \<noteq> removalTarget m"
  using assms by (auto simp: separateNames_def list_all_iff)

text \<open>
  After a first run over the artifacts of a definition, under the Update policy and with
  no file operation refused, every artifact compares equal to the file committed at its
  final path, when the artifacts can be settled and their file names do not collide.
\<close>

lemma Group_persistAll_settles:
  assumes mode: "Mode g = OverwriteUpdate"
      and dirs: "tmpDir \<noteq> OutputPath g"
      and faults: "\<forall>op p. \<not> Faults x op p"
  shows "\<forall>v\<in>set variants. settleable x g groupName item (heap w) (files w) v \<Longrightarrow>
         separateNames (map (filenameOf x (heap w) groupName item) variants) \<Longrightarrow>
         \<forall>v\<in>set variants.
           committedEqual x g groupName item
             (heap (snd (Group_persistAll x g tmpDir groupName item variants w)))
             (files (snd (Group_persistAll x g tmpDir groupName item variants w))) v"
proof (induction variants arbitrary: w)
  case Nil
  show ?case by simp
next
  case (Cons v variants)
  let ?out = "OutputPath g"
  from Cons.prems(1) have sv: "settleable x g groupName item (heap w) (files w) v"
    by simp
  from settleableD [OF sv] obtain n where n: "vectorFilename x (heap w) groupName item v = Inr n"
    by blast
  obtain r w' where step: "Group_persist x g tmpDir groupName item v w = (r, w')"
    by (cases "Group_persist x g tmpDir groupName item v w")
  have heap: "heap w' = heap w"
    using Group_persist_heap [of x g tmpDir groupName item v w] step by simp
  from Group_persist_frame [OF n, of g tmpDir] step
  have r: "r = None"
    and frame: "\<forall>p. p \<noteq> (tmpDir, n) \<and> p \<noteq> (?out, n) \<and> p \<noteq> (?out, removalTarget n)
                  \<longrightarrow> files w' p = files w p"
    by simp_all
  from Cons.prems(2) n
  have sep: "separateNames (n # map (filenameOf x (heap w) groupName item) variants)"
    by (simp add: filenameOf_resolved)
  note tail = separateNames_Cons [OF sep]
  have names: "\<exists>m. vectorFilename x (heap w) groupName item u = Inr m
                 \<and> m \<noteq> n \<and> m \<noteq> removalTarget n \<and> n \<noteq> removalTarget m"
    if "u \<in> set variants" for u
  proof -
    from that Cons.prems(1) have "settleable x g groupName item (heap w) (files w) u"
      by simp
    from settleableD [OF this] obtain m where m: "vectorFilename x (heap w) groupName item u = Inr m"
      by blast
    with that have "m \<in> set (map (filenameOf x (heap w) groupName item) variants)"
      by (force simp: filenameOf_resolved)
    with tail(2) m show ?thesis
      by blast
  qed
  have settle_tail: "\<forall>u\<in>set variants. settleable x g groupName item (heap w') (files w') u"
  proof
    fix u
    assume u: "u \<in> set variants"
    from names [OF u] obtain m where
      m: "vectorFilename x (heap w) groupName item u = Inr m" "m \<noteq> n" "m \<noteq> removalTarget n"
      by blast
    with frame dirs have same: "files w' (?out, m) = files w (?out, m)"
      by simp
    have "settleable x g groupName item (heap w) (files w') u =
            settleable x g groupName item (heap w) (files w) u"
      using m(1) same by (rule settleable_files)
    with u Cons.prems(1) heap
    show "settleable x g groupName item (heap w') (files w') u"
      by simp
  qed
  have sep_tail: "separateNames (map (filenameOf x (heap w') groupName item) variants)"
    using tail(1) heap by simp
  let ?w1 = "snd (Group_persistAll x g tmpDir groupName item variants w')"
  from Cons.IH [OF settle_tail sep_tail]
  have ih: "\<forall>u\<in>set variants. committedEqual x g groupName item (heap ?w1) (files ?w1) u" .
  have heap1: "heap ?w1 = heap w"
    using heap by simp
  have "committedEqual x g groupName item (heap w') (files w') v"
    using Group_persist_settles [OF mode dirs faults sv] step by simp
  moreover have "files ?w1 (?out, n) = files w' (?out, n)"
  proof -
    have resolved: "\<forall>u\<in>set variants. \<exists>name. vectorFilename x (heap w') groupName item u = Inr name"
      using names heap by auto
    have "(?out, n) \<notin> (\<lambda>u. (?out, filenameOf x (heap w') groupName item u)) ` set variants"
      using names heap by (force simp: filenameOf_resolved)
    moreover have "(?out, n) \<notin> (\<lambda>u. (?out, removalTarget (filenameOf x (heap w') groupName item u))) ` set variants"
      using names heap by (force simp: filenameOf_resolved)
    ultimately show ?thesis
      using Group_persistAll_frame [OF resolved, of g tmpDir] dirs by simp
  qed
  ultimately have "committedEqual x g groupName item (heap ?w1) (files ?w1) v"
    using committedEqual_files [where x = x and h = "heap w" and groupName = groupName
            and item = item and v = v and name = n and g = g and fs = "files ?w1" and fs' = "files w'"]
          n heap1 heap
    by simp
  with ih step r show ?case
    by simp
qed

text \<open>
  Two runs with identical inputs under the Update policy: the second run over the
  artifacts of a definition changes no file outside the temporary directory.
\<close>

lemma Group_persistAll_second_run:
  assumes mode: "Mode g = OverwriteUpdate"
      and dirs: "tmpDir \<noteq> OutputPath g"
      and faults: "\<forall>op p. \<not> Faults x op p"
      and settle: "\<forall>v\<in>set variants. settleable x g groupName item (heap w) (files w) v"
      and sep: "separateNames (map (filenameOf x (heap w) groupName item) variants)"
  shows "fst (Group_persistAll x g tmpDir groupName item variants
                (snd (Group_persistAll x g tmpDir groupName item variants w))) = None
         \<and> (\<forall>p. fst p \<noteq> tmpDir \<longrightarrow>
               files (snd (Group_persistAll x g tmpDir groupName item variants
                        (snd (Group_persistAll x g tmpDir groupName item variants w)))) p
               = files (snd (Group_persistAll x g tmpDir groupName item variants w)) p)"
proof -
  from mode have "Mode g \<noteq> OverwriteForce"
    by simp
  from Group_persistAll_equal [OF this dirs Group_persistAll_settles [OF mode dirs faults settle sep]]
  show ?thesis
    by simp
qed


section \<open>Idempotence under the Update policy\<close>





end
